theory Spec2Isabelle
  imports Complex_Main
begin

section \<open>Numbers, rounding and random draws\<close>

text \<open>
  The generators compute with Python floats. The embedding idealises a float as an exact
  rational number, so that \<open>+\<close>, \<open>-\<close>, \<open>*\<close> and \<open>/\<close> are the exact operations and
  \<open>round(x, n)\<close> rounds the exact value to \<open>n\<close> decimals, ties going to the even
  neighbour (the rule Python documents for \<open>round\<close>).
\<close>

definition round_half_even :: "rat \<Rightarrow> int" where
  "round_half_even x =
     (let f = \<lfloor>x\<rfloor>; d = x - of_int f
      in if d < 1 / 2 then f
         else if 1 / 2 < d then f + 1
         else if even f then f else f + 1)"

definition py_round :: "rat \<Rightarrow> nat \<Rightarrow> rat" where
  "py_round x n = of_int (round_half_even (x * 10 ^ n)) / 10 ^ n"

text \<open>
  The same rounding on a fraction \<open>a / b\<close> of integers, by integer division; it is what
  the proofs compute with.
\<close>

definition rhe_int :: "int \<Rightarrow> int \<Rightarrow> int" where
  "rhe_int a b =
     (let q = a div b; r = a mod b
      in if 2 * r < b then q
         else if b < 2 * r then q + 1
         else if even q then q else q + 1)"

text \<open>
  \<open>random.uniform(a, b)\<close> is \<open>a + (b - a) * random()\<close>; the value of \<open>random()\<close>, a number
  in \<open>[0, 1)\<close>, is an explicit argument of every function that draws.
\<close>

definition uniform :: "rat \<Rightarrow> rat \<Rightarrow> rat \<Rightarrow> rat" where
  "uniform a b u = a + (b - a) * u"

definition unit_draw :: "rat \<Rightarrow> bool" where
  "unit_draw u = (0 \<le> u \<and> u < 1)"

text \<open>Python's \<open>sub in s\<close> on strings: \<open>sub\<close> occurs in \<open>s\<close> as a contiguous block.\<close>

fun starts_with :: "string \<Rightarrow> string \<Rightarrow> bool" where
  "starts_with s [] = True"
| "starts_with [] (c # cs) = False"
| "starts_with (d # ds) (c # cs) = (d = c \<and> starts_with ds cs)"

fun py_in :: "string \<Rightarrow> string \<Rightarrow> bool" where
  "py_in sub [] = (sub = [])"
| "py_in sub (c # cs) = (starts_with (c # cs) sub \<or> py_in sub cs)"

section \<open>Billing engine\<close>

subsection \<open>Slab tables and the bill record\<close>

text \<open>
  A slab is a pair (unit limit, rate); the limit \<open>None\<close> stands for \<open>float('inf')\<close>.
\<close>

type_synonym slab = "rat option \<times> rat"

record bill =
  issue_date :: int
  due_date :: int
  units_consumed :: rat
  variable_charges :: rat
  fixed_charges :: rat
  gst :: rat
  electricity_duty :: rat
  tv_fee :: rat
  late_payment_surcharge :: rat
  total_amount :: rat
  amount_within_due_date :: rat
  amount_after_due_date :: rat
  tariff_applied :: string

text \<open>
  The loop \<open>for limit, rate in slabs\<close> of \<open>calculate_bill\<close>: it stops when nothing remains,
  otherwise charges \<open>min(remaining, limit)\<close> units at the slab's rate.
\<close>

fun slab_loop :: "slab list \<Rightarrow> rat \<Rightarrow> rat \<Rightarrow> rat" where
  "slab_loop [] remaining variable = variable"
| "slab_loop ((limit, rate) # slabs) remaining variable =
     (if remaining \<le> 0 then variable
      else let slab_units = (case limit of None \<Rightarrow> remaining | Some l \<Rightarrow> min remaining l)
           in slab_loop slabs (remaining - slab_units) (variable + slab_units * rate))"

subsection \<open>\<open>IESCODataGenerator.calculate_bill\<close> (datagenerator\_v1.1)\<close>

definition slabs_v11 :: "string \<Rightarrow> slab list" where
  "slabs_v11 tariff =
     (if py_in ''A-1'' tariff then
        [(Some 100, 579 / 100), (Some 200, 811 / 100), (Some 300, 1020 / 100),
         (Some 400, 16), (Some 500, 18), (None, 21)]
      else if py_in ''A-2'' tariff then [(Some 100, 16), (Some 300, 18), (None, 21)]
      else if py_in ''B-1'' tariff then [(None, 14)]
      else [(None, 16)])"

definition fixed_charge_v11 :: "string \<Rightarrow> rat \<Rightarrow> rat" where
  "fixed_charge_v11 tariff connected_load =
     (if py_in ''A-1'' tariff then (if connected_load < 5 then 50 else 100)
      else if py_in ''A-2'' tariff then 250 * connected_load
      else if py_in ''B-1'' tariff then 200 * connected_load
      else 300 * connected_load)"

text \<open>
  The unrounded amounts of a bill, as \<open>calculate_bill\<close> holds them in its local variables
  before the record is built. \<open>tv_draw\<close> and \<open>late_draw\<close> are the two values of
  \<open>random.random()\<close>; \<open>billing_day\<close> is the day number of the 25th of the billing month.
\<close>

record amounts =
  a_variable :: rat
  a_fixed :: rat
  a_gst :: rat
  a_duty :: rat
  a_tv_fee :: rat
  a_late :: rat
  a_total :: rat

definition bill_amounts_v11 :: "rat \<Rightarrow> string \<Rightarrow> rat \<Rightarrow> rat \<Rightarrow> rat \<Rightarrow> amounts" where
  "bill_amounts_v11 consumption_kwh tariff connected_load tv_draw late_draw =
     (let variable = slab_loop (slabs_v11 tariff) consumption_kwh 0;
          fixed = fixed_charge_v11 tariff connected_load;
          g = (variable + fixed) * (18 / 100);
          duty = variable * (15 / 1000);
          tv = (if 7 / 10 < tv_draw then 35 else 0);
          late = (if 9 / 10 < late_draw then (variable + fixed) * (5 / 100) else 0)
      in \<lparr>a_variable = variable, a_fixed = fixed, a_gst = g, a_duty = duty,
          a_tv_fee = tv, a_late = late,
          a_total = variable + fixed + g + duty + tv + late\<rparr>)"

definition bill_of_amounts :: "int \<Rightarrow> int \<Rightarrow> rat \<Rightarrow> string \<Rightarrow> amounts \<Rightarrow> bill" where
  "bill_of_amounts issue due consumption_kwh tariff a =
     \<lparr>issue_date = issue, due_date = due,
      units_consumed = py_round consumption_kwh 2,
      variable_charges = py_round (a_variable a) 2,
      fixed_charges = py_round (a_fixed a) 2,
      gst = py_round (a_gst a) 2,
      electricity_duty = py_round (a_duty a) 2,
      tv_fee = py_round (a_tv_fee a) 2,
      late_payment_surcharge = py_round (a_late a) 2,
      total_amount = py_round (a_total a) 2,
      amount_within_due_date = py_round (a_total a) 2,
      amount_after_due_date = py_round (a_total a * (105 / 100)) 2,
      tariff_applied = tariff\<rparr>"

definition calculate_bill :: "rat \<Rightarrow> string \<Rightarrow> rat \<Rightarrow> int \<Rightarrow> rat \<Rightarrow> rat \<Rightarrow> bill" where
  "calculate_bill consumption_kwh tariff connected_load billing_day tv_draw late_draw =
     bill_of_amounts billing_day (billing_day + 14) consumption_kwh tariff
       (bill_amounts_v11 consumption_kwh tariff connected_load tv_draw late_draw)"

subsection \<open>\<open>_calculate_bill\<close> (datagenerator\_v1.2)\<close>

definition slabs_v12 :: "string \<Rightarrow> slab list" where
  "slabs_v12 tariff =
     (if py_in ''A-1'' tariff then
        [(Some 100, 579 / 100), (Some 200, 811 / 100), (Some 300, 1020 / 100),
         (Some 400, 16), (Some 500, 18), (None, 21)]
      else if py_in ''A-2'' tariff then [(Some 100, 16), (Some 300, 18), (None, 21)]
      else if py_in ''B-1'' tariff then [(None, 14)]
      else if py_in ''B-2'' tariff then [(None, 16)]
      else if py_in ''C-1'' tariff then [(None, 12)]
      else [(None, 18)])"

definition fixed_charge_v12 :: "string \<Rightarrow> rat \<Rightarrow> rat" where
  "fixed_charge_v12 tariff connected_load =
     (if py_in ''A-1'' tariff then (if connected_load < 5 then 50 else 100)
      else if py_in ''A-2'' tariff then 250 * connected_load
      else if py_in ''B-1'' tariff then 200 * connected_load
      else if py_in ''B-2'' tariff then 300 * connected_load
      else if py_in ''C-1'' tariff then 100 * connected_load
      else 400 * connected_load)"

definition bill_amounts_v12 :: "rat \<Rightarrow> string \<Rightarrow> rat \<Rightarrow> rat \<Rightarrow> rat \<Rightarrow> amounts" where
  "bill_amounts_v12 consumption_kwh tariff connected_load tv_draw late_draw =
     (let variable = slab_loop (slabs_v12 tariff) consumption_kwh 0;
          fixed = fixed_charge_v12 tariff connected_load;
          g = (variable + fixed) * (18 / 100);
          duty = variable * (15 / 1000);
          tv = (if 7 / 10 < tv_draw then 35 else 0);
          late = (if 1 / 10 < late_draw then 0 else (variable + fixed) * (5 / 100))
      in \<lparr>a_variable = variable, a_fixed = fixed, a_gst = g, a_duty = duty,
          a_tv_fee = tv, a_late = late,
          a_total = variable + fixed + g + duty + tv + late\<rparr>)"

definition calculate_bill_v12 :: "rat \<Rightarrow> string \<Rightarrow> rat \<Rightarrow> int \<Rightarrow> rat \<Rightarrow> rat \<Rightarrow> bill" where
  "calculate_bill_v12 consumption_kwh tariff connected_load billing_day tv_draw late_draw =
     bill_of_amounts (billing_day - 5) (billing_day + 14) consumption_kwh tariff
       (bill_amounts_v12 consumption_kwh tariff connected_load tv_draw late_draw)"

section \<open>Reading generators\<close>

subsection \<open>Readings, flags and draws\<close>

text \<open>
  The keys of \<open>issue_probabilities\<close>. A reading's quality flag is the title-cased key of
  the defect that matched (\<open>'Missing Reading'\<close>, \<open>'Negative Reading'\<close>, ...) or
  \<open>'Normal'\<close>.
\<close>

datatype issue = missing_reading | negative_reading | zero_reading | abnormal_spike
  | voltage_sag | frequency_variation | signal_drop | battery_fault
  | meter_tamper | reverse_energy

datatype quality_flag = Defect issue | Normal

text \<open>
  A timestamp of the sampling grid: its position on the time axis in minutes, and the
  calendar fields the generators read from it.
\<close>

record timestamp =
  ts_minute :: int
  ts_hour :: nat
  ts_month :: nat
  ts_dayofweek :: nat

text \<open>
  The reading record, restricted to the fields that billing and the register depend on.
  The electrical fields (voltage, current, frequency, power factor, temperature, signal
  strength, battery voltage) are drawn independently and never feed back into the
  register, the interval consumption or the flag; they are left out, and the four defects
  that only overwrite one of them leave the modelled fields as they are.
\<close>

record reading =
  r_timestamp :: int
  reading_kwh :: rat
  energy_consumed_kwh :: rat
  data_quality_flag :: quality_flag

text \<open>
  The values of \<open>random.random()\<close> behind the draws of one timestamp: the base consumption,
  the solar factor (v1.2), the \<open>\<plusminus>10%\<close> variation, the defect draw \<open>rand_val\<close> and the spike
  factor (v1.1).
\<close>

record draws =
  u_base :: rat
  u_solar :: rat
  u_variation :: rat
  rand_val :: rat
  u_spike :: rat

definition valid_draws :: "draws \<Rightarrow> bool" where
  "valid_draws d = (unit_draw (u_base d) \<and> unit_draw (u_solar d) \<and> unit_draw (u_variation d)
                     \<and> unit_draw (rand_val d) \<and> unit_draw (u_spike d))"

text \<open>The loop variables \<open>cumulative_reading\<close> and \<open>previous_reading\<close> of one meter.\<close>

record register =
  cumulative_reading :: rat
  previous_reading :: rat

definition is_peak :: "nat \<Rightarrow> bool" where
  "is_peak hour = ((6 \<le> hour \<and> hour \<le> 10) \<or> (18 \<le> hour \<and> hour \<le> 23))"

text \<open>
  The loop \<open>for issue, prob in self.issue_probabilities.items()\<close> that both variants use to
  classify \<open>rand_val\<close>: the first defect whose cumulative boundary exceeds the draw wins.
\<close>

fun flag_loop :: "(issue \<times> rat) list \<Rightarrow> rat \<Rightarrow> rat \<Rightarrow> quality_flag" where
  "flag_loop [] cumulative rv = Normal"
| "flag_loop ((issue, prob) # rest) cumulative rv =
     (if rv < cumulative + prob then Defect issue else flag_loop rest (cumulative + prob) rv)"

text \<open>\<open>self.issue_probabilities[key]\<close>; every key the code looks up is in the table.\<close>

definition prob_of :: "(issue \<times> rat) list \<Rightarrow> issue \<Rightarrow> rat" where
  "prob_of table key = (case map_of table key of Some p \<Rightarrow> p | None \<Rightarrow> 0)"

subsection \<open>\<open>IESCODataGenerator.generate_readings\<close> (datagenerator\_v1.1)\<close>

definition issue_probabilities_v11 :: "(issue \<times> rat) list" where
  "issue_probabilities_v11 =
     [(missing_reading, 2 / 100), (negative_reading, 5 / 1000), (zero_reading, 1 / 100),
      (abnormal_spike, 1 / 100), (voltage_sag, 15 / 1000), (frequency_variation, 1 / 100),
      (signal_drop, 2 / 100), (battery_fault, 5 / 1000)]"

definition determine_quality_flag :: "rat \<Rightarrow> quality_flag" where
  "determine_quality_flag rv = flag_loop issue_probabilities_v11 0 rv"

text \<open>(base\_min, base\_max, peak\_min, peak\_max) by tariff.\<close>

definition consumption_params_v11 :: "string \<Rightarrow> rat \<times> rat \<times> rat \<times> rat" where
  "consumption_params_v11 tariff =
     (if py_in ''A-1'' tariff then (1 / 10, 5 / 10, 5 / 10, 8 / 10)
      else if py_in ''A-2'' tariff then (3 / 10, 1, 1, 15 / 10)
      else (1, 5, 5, 8))"

text \<open>
  The table \<open>monthly_multiplier\<close>. A pandas timestamp has a month from 1 to 12; the last
  equation is never reached for one (the source would raise \<open>KeyError\<close>).
\<close>

fun monthly_multiplier :: "nat \<Rightarrow> rat" where
  "monthly_multiplier m =
     (if m = 1 then 7 / 10 else if m = 2 then 7 / 10 else if m = 3 then 8 / 10
      else if m = 4 then 9 / 10 else if m = 5 then 12 / 10 else if m = 6 then 14 / 10
      else if m = 7 then 14 / 10 else if m = 8 then 13 / 10 else if m = 9 then 11 / 10
      else if m = 10 then 9 / 10 else if m = 11 then 8 / 10 else if m = 12 then 7 / 10
      else 0)"

text \<open>The value of \<open>consumption\<close> when it is first added to the register.\<close>

definition drawn_consumption_v11 :: "string \<Rightarrow> timestamp \<Rightarrow> draws \<Rightarrow> rat" where
  "drawn_consumption_v11 tariff ts d =
     (case consumption_params_v11 tariff of (base_min, base_max, peak_min, peak_max) \<Rightarrow>
        let weekend_multiplier = (if 5 \<le> ts_dayofweek ts then 11 / 10 else 1);
            base_consumption = (if is_peak (ts_hour ts) then uniform peak_min peak_max (u_base d)
                                else uniform base_min base_max (u_base d));
            consumption = base_consumption * monthly_multiplier (ts_month ts) * weekend_multiplier
        in consumption * uniform (9 / 10) (11 / 10) (u_variation d))"

text \<open>
  The \<open>if\<close>/\<open>elif\<close> chain on \<open>rand_val\<close>: from the consumption and the register after the
  first addition to the reported consumption and the register of the record.
\<close>

definition P11 :: "issue \<Rightarrow> rat" where
  "P11 key = prob_of issue_probabilities_v11 key"

definition defect_chain_v11 :: "rat \<Rightarrow> rat \<Rightarrow> rat \<Rightarrow> rat \<Rightarrow> rat \<Rightarrow> (rat \<times> rat) option" where
  "defect_chain_v11 rv spike consumption cumulative previous =
     (if rv < P11 missing_reading then None
      else if rv < P11 missing_reading + P11 negative_reading then
        Some (- consumption, previous - (- consumption))
      else if rv < P11 missing_reading + P11 negative_reading + P11 zero_reading then
        Some (0, cumulative)
      else if rv < P11 missing_reading + P11 negative_reading + P11 zero_reading
                   + P11 abnormal_spike then
        Some (consumption * spike, cumulative + consumption * spike)
      else if rv < P11 missing_reading + P11 negative_reading + P11 zero_reading
                   + P11 abnormal_spike + P11 voltage_sag then
        Some (consumption, cumulative)
      else if rv < P11 missing_reading + P11 negative_reading + P11 zero_reading
                   + P11 abnormal_spike + P11 voltage_sag + P11 frequency_variation then
        Some (consumption, cumulative)
      else if rv < P11 missing_reading + P11 negative_reading + P11 zero_reading
                   + P11 abnormal_spike + P11 voltage_sag + P11 frequency_variation
                   + P11 signal_drop then
        Some (consumption, cumulative)
      else if rv < P11 missing_reading + P11 negative_reading + P11 zero_reading
                   + P11 abnormal_spike + P11 voltage_sag + P11 frequency_variation
                   + P11 signal_drop + P11 battery_fault then
        Some (consumption, cumulative)
      else Some (consumption, cumulative + consumption))"

text \<open>
  One iteration of \<open>for idx, timestamp in enumerate(timestamps)\<close>: the new loop variables
  and the record appended, if any (\<open>continue\<close> leaves \<open>previous_reading\<close> as it was).
\<close>

definition reading_step_v11 ::
  "string \<Rightarrow> register \<Rightarrow> timestamp \<times> draws \<Rightarrow> register \<times> reading option" where
  "reading_step_v11 tariff s td =
     (case td of (ts, d) \<Rightarrow>
        let consumption = drawn_consumption_v11 tariff ts d;
            cumulative = cumulative_reading s + consumption
        in case defect_chain_v11 (rand_val d) (uniform 5 10 (u_spike d)) consumption cumulative
                  (previous_reading s) of
             None \<Rightarrow> (s\<lparr>cumulative_reading := cumulative\<rparr>, None)
           | Some (consumption', cumulative') \<Rightarrow>
               (\<lparr>cumulative_reading = cumulative', previous_reading = cumulative'\<rparr>,
                Some \<lparr>r_timestamp = ts_minute ts,
                      reading_kwh = py_round cumulative' 3,
                      energy_consumed_kwh = py_round consumption' 3,
                      data_quality_flag = determine_quality_flag (rand_val d)\<rparr>))"

fun readings_loop_v11 :: "string \<Rightarrow> register \<Rightarrow> (timestamp \<times> draws) list \<Rightarrow> reading list" where
  "readings_loop_v11 tariff s [] = []"
| "readings_loop_v11 tariff s (td # rest) =
     (case reading_step_v11 tariff s td of
        (s', None) \<Rightarrow> readings_loop_v11 tariff s' rest
      | (s', Some r) \<Rightarrow> r # readings_loop_v11 tariff s' rest)"

text \<open>The loop variables when the timestamp loop has run through a grid.\<close>

fun register_after_v11 :: "string \<Rightarrow> register \<Rightarrow> (timestamp \<times> draws) list \<Rightarrow> register" where
  "register_after_v11 tariff s [] = s"
| "register_after_v11 tariff s (td # rest) =
     register_after_v11 tariff (fst (reading_step_v11 tariff s td)) rest"

text \<open>The readings of one meter: both loop variables start at 0.\<close>

definition generate_readings_v11 :: "string \<Rightarrow> (timestamp \<times> draws) list \<Rightarrow> reading list" where
  "generate_readings_v11 tariff grid =
     readings_loop_v11 tariff \<lparr>cumulative_reading = 0, previous_reading = 0\<rparr> grid"

subsection \<open>\<open>generate_readings_dynamic\<close> and \<open>_apply_data_quality_issues\<close> (datagenerator\_v1.2)\<close>

definition issue_probabilities_v12 :: "(issue \<times> rat) list" where
  "issue_probabilities_v12 =
     [(missing_reading, 2 / 100), (negative_reading, 5 / 1000), (zero_reading, 1 / 100),
      (abnormal_spike, 1 / 100), (voltage_sag, 15 / 1000), (frequency_variation, 1 / 100),
      (signal_drop, 2 / 100), (battery_fault, 5 / 1000), (meter_tamper, 3 / 1000),
      (reverse_energy, 2 / 1000)]"

text \<open>
  What \<open>_apply_data_quality_issues\<close> returns for the defect that matched: the consumption,
  the cumulative reading and the flag.
\<close>

fun issue_result :: "issue \<Rightarrow> rat \<Rightarrow> rat \<Rightarrow> rat \<Rightarrow> rat \<times> rat \<times> quality_flag" where
  "issue_result missing_reading consumption cumulative previous =
     (consumption, cumulative, Defect missing_reading)"
| "issue_result negative_reading consumption cumulative previous =
     (- consumption, previous - consumption, Defect negative_reading)"
| "issue_result zero_reading consumption cumulative previous =
     (0, previous, Defect zero_reading)"
| "issue_result abnormal_spike consumption cumulative previous =
     (consumption * 10, cumulative + consumption * 9, Defect abnormal_spike)"
| "issue_result voltage_sag consumption cumulative previous =
     (consumption, cumulative, Defect voltage_sag)"
| "issue_result frequency_variation consumption cumulative previous =
     (consumption, cumulative, Defect frequency_variation)"
| "issue_result signal_drop consumption cumulative previous =
     (consumption, cumulative, Defect signal_drop)"
| "issue_result battery_fault consumption cumulative previous =
     (consumption, cumulative, Defect battery_fault)"
| "issue_result meter_tamper consumption cumulative previous =
     (consumption * (3 / 10), previous + consumption * (3 / 10), Defect meter_tamper)"
| "issue_result reverse_energy consumption cumulative previous =
     (- consumption, previous - consumption, Defect reverse_energy)"

fun apply_loop ::
  "(issue \<times> rat) list \<Rightarrow> rat \<Rightarrow> rat \<Rightarrow> rat \<Rightarrow> rat \<Rightarrow> rat \<Rightarrow> rat \<times> rat \<times> quality_flag" where
  "apply_loop [] cumulative rv consumption cumulative_rd previous =
     (consumption, cumulative_rd, Normal)"
| "apply_loop ((issue, prob) # rest) cumulative rv consumption cumulative_rd previous =
     (if rv < cumulative + prob then issue_result issue consumption cumulative_rd previous
      else apply_loop rest (cumulative + prob) rv consumption cumulative_rd previous)"

definition apply_data_quality_issues :: "rat \<Rightarrow> rat \<Rightarrow> rat \<Rightarrow> rat \<Rightarrow> rat \<times> rat \<times> quality_flag" where
  "apply_data_quality_issues rv consumption cumulative_rd previous =
     apply_loop issue_probabilities_v12 0 rv consumption cumulative_rd previous"

definition get_consumption_params :: "string \<Rightarrow> rat \<times> rat \<times> rat \<times> rat" where
  "get_consumption_params tariff =
     (if py_in ''A-1'' tariff then (1 / 10, 5 / 10, 5 / 10, 8 / 10)
      else if py_in ''A-2'' tariff then (3 / 10, 1, 1, 18 / 10)
      else if py_in ''B-1'' tariff then (1, 3, 3, 5)
      else if py_in ''B-2'' tariff then (3, 8, 8, 15)
      else if py_in ''C-1'' tariff then (5 / 10, 2, 2, 4)
      else (5, 15, 15, 25))"

text \<open>
  The fields of a v1.2 meter record that the population simulator and the reading
  generator read or write. Meter numbers and consumer ids are the drawn integers (their
  decimal rendering is injective); dates are day or minute counts.
\<close>

record lifecycle_event =
  le_date :: int
  le_event :: string
  le_old_meter :: nat

record meter =
  consumer_id :: nat
  meter_number :: nat
  previous_meter_number :: "nat option"
  meter_generation :: nat
  installation_date :: int
  deactivation_date :: "int option"
  is_active :: bool
  tariff_category :: string
  meter_type :: string
  meter_status :: string
  has_solar :: bool
  solar_installation_date :: "int option"
  distribution_transformer_id :: nat
  lifecycle_events :: "lifecycle_event list"

definition solar_active :: "meter \<Rightarrow> timestamp \<Rightarrow> bool" where
  "solar_active m ts =
     (has_solar m \<and> (case solar_installation_date m of None \<Rightarrow> True
                       | Some sd \<Rightarrow> sd \<le> ts_minute ts))"

definition drawn_consumption_v12 :: "meter \<Rightarrow> timestamp \<Rightarrow> draws \<Rightarrow> rat" where
  "drawn_consumption_v12 m ts d =
     (case get_consumption_params (tariff_category m) of
        (base_min, base_max, peak_min, peak_max) \<Rightarrow>
        let weekend_multiplier = (if 5 \<le> ts_dayofweek ts then 12 / 10 else 1);
            seasonal_multiplier = (if ts_month ts \<in> set [5, 6, 7, 8, 9] then 14 / 10 else 1);
            base_consumption = (if is_peak (ts_hour ts) then uniform peak_min peak_max (u_base d)
                                else uniform base_min base_max (u_base d));
            consumption = base_consumption * weekend_multiplier * seasonal_multiplier;
            consumption = (if solar_active m ts \<and> 8 \<le> ts_hour ts \<and> ts_hour ts \<le> 17
                           then consumption * uniform (3 / 10) (8 / 10) (u_solar d)
                           else consumption)
        in consumption * uniform (9 / 10) (11 / 10) (u_variation d))"

text \<open>
  The three \<open>continue\<close> tests at the head of the timestamp loop: before installation,
  after deactivation, inside a failure window.
\<close>

definition skipped_v12 :: "meter \<Rightarrow> (int \<times> int) list \<Rightarrow> timestamp \<Rightarrow> bool" where
  "skipped_v12 m meter_failures ts =
     (ts_minute ts < installation_date m
      \<or> (case deactivation_date m of None \<Rightarrow> False | Some dd \<Rightarrow> dd < ts_minute ts)
      \<or> list_ex (\<lambda>(start, stop). start \<le> ts_minute ts \<and> ts_minute ts \<le> stop) meter_failures)"

definition reading_step_v12 ::
  "meter \<Rightarrow> (int \<times> int) list \<Rightarrow> register \<Rightarrow> timestamp \<times> draws \<Rightarrow> register \<times> reading option" where
  "reading_step_v12 m meter_failures s td =
     (case td of (ts, d) \<Rightarrow>
        if skipped_v12 m meter_failures ts then (s, None)
        else
          let consumption = drawn_consumption_v12 m ts d;
              cumulative = cumulative_reading s + consumption
          in case apply_data_quality_issues (rand_val d) consumption cumulative
                    (previous_reading s) of
               (consumption', cumulative', quality_flag) \<Rightarrow>
                 (\<lparr>cumulative_reading = cumulative', previous_reading = cumulative'\<rparr>,
                  Some \<lparr>r_timestamp = ts_minute ts,
                        reading_kwh = py_round cumulative' 3,
                        energy_consumed_kwh = py_round consumption' 3,
                        data_quality_flag = quality_flag\<rparr>))"

fun readings_loop_v12 ::
  "meter \<Rightarrow> (int \<times> int) list \<Rightarrow> register \<Rightarrow> (timestamp \<times> draws) list \<Rightarrow> reading list" where
  "readings_loop_v12 m fs s [] = []"
| "readings_loop_v12 m fs s (td # rest) =
     (case reading_step_v12 m fs s td of
        (s', None) \<Rightarrow> readings_loop_v12 m fs s' rest
      | (s', Some r) \<Rightarrow> r # readings_loop_v12 m fs s' rest)"

definition generate_readings_dynamic ::
  "meter \<Rightarrow> (int \<times> int) list \<Rightarrow> (timestamp \<times> draws) list \<Rightarrow> reading list" where
  "generate_readings_dynamic m meter_failures grid =
     readings_loop_v12 m meter_failures \<lparr>cumulative_reading = 0, previous_reading = 0\<rparr> grid"

subsection \<open>Order of the registers in a reading sequence\<close>

text \<open>
  The two flags under which v1.2 moves the register below its previous value.
\<close>

definition lowers_register :: "quality_flag \<Rightarrow> bool" where
  "lowers_register f = (f = Defect negative_reading \<or> f = Defect reverse_energy)"

text \<open>
  \<open>ordered_from q rs\<close>: walking through \<open>rs\<close> from a register value \<open>q\<close>, every
  reading whose flag does not lower the register shows a value at least that of the
  reading before it.
\<close>

fun ordered_from :: "rat \<Rightarrow> reading list \<Rightarrow> bool" where
  "ordered_from q [] = True"
| "ordered_from q (r # rs) =
     ((lowers_register (data_quality_flag r) \<or> q \<le> reading_kwh r)
      \<and> ordered_from (reading_kwh r) rs)"

definition normal_readings :: "reading list \<Rightarrow> reading list" where
  "normal_readings rs = filter (\<lambda>r. data_quality_flag r = Normal) rs"

section \<open>Consumption reconciliation\<close>

text \<open>The rows of a meter whose timestamp lies in the billing month \<open>[lo, hi)\<close>.\<close>

definition month_readings :: "reading list \<Rightarrow> int \<Rightarrow> int \<Rightarrow> reading list" where
  "month_readings rs lo hi = filter (\<lambda>r. lo \<le> r_timestamp r \<and> r_timestamp r < hi) rs"

text \<open>
  \<open>generate_monthly_bills\<close> (v1.1): the consumption billed for the rows of one month;
  \<open>None\<close> when the month has no row, which yields no bill.
\<close>

definition total_consumption_v11 :: "reading list \<Rightarrow> rat option" where
  "total_consumption_v11 mr =
     (if length mr > 0 then
        let first_reading = reading_kwh (hd mr);
            last_reading = reading_kwh (last mr);
            total = (if last_reading < first_reading \<or> last_reading < 0
                     then sum_list (map energy_consumed_kwh
                                     (filter (\<lambda>r. 0 < energy_consumed_kwh r) mr))
                     else last_reading - first_reading)
        in Some (max 0 total)
      else None)"

text \<open>\<open>generate_monthly_bills_dynamic\<close> (v1.2).\<close>

definition consumption_v12 :: "reading list \<Rightarrow> rat option" where
  "consumption_v12 mr =
     (if length mr = 0 then None
      else
        let valid_readings = filter (\<lambda>r. data_quality_flag r = Normal) mr;
            consumption =
              (if length valid_readings > 1 then
                 let first_valid = reading_kwh (hd valid_readings);
                     last_valid = reading_kwh (last valid_readings)
                 in if first_valid \<le> last_valid then last_valid - first_valid
                    else sum_list (map energy_consumed_kwh valid_readings)
               else sum_list (map energy_consumed_kwh mr))
        in Some (max 0 consumption))"

section \<open>Population simulator\<close>

subsection \<open>Transformer upgrades\<close>

record upgrade_entry =
  ue_date :: int
  old_rating :: rat
  new_rating :: rat

record transformer =
  transformer_id :: nat
  transformer_type :: string
  rating_kva :: rat
  capacity_utilization_pct :: rat
  upgrade_date :: "int option"
  upgrade_history :: "upgrade_entry list"

record upgrade_event =
  ev_date :: int
  ev_transformer_id :: nat
  old_rating_kva :: rat
  new_rating_kva :: rat

text \<open>
  \<open>transformer_specs['distribution_transformer']['types']\<close>, as pairs
  (\<open>rating_kva\<close>, \<open>upgrade_to\<close>); the same table in v1.2 and v1.3.
\<close>

definition distribution_specs :: "(rat \<times> rat) list" where
  "distribution_specs =
     [(1500, 2000), (1000, 1500), (750, 1000), (500, 750), (250, 400), (100, 200)]"

text \<open>The \<open>for spec in ...: ... break / else:\<close> search for the upgrade path.\<close>

fun upgrade_path :: "(rat \<times> rat) list \<Rightarrow> rat \<Rightarrow> rat" where
  "upgrade_path [] old = old * (15 / 10)"
| "upgrade_path ((rating, upgrade_to) # specs) old =
     (if rating = old then upgrade_to else upgrade_path specs old)"

text \<open>
  The body of the upgrade loop for one transformer. The division \<open>old_rating / new_rating\<close>
  raises \<open>ZeroDivisionError\<close> when the new rating is 0; that is the result \<open>None\<close>.
\<close>

definition upgrade_transformer :: "int \<Rightarrow> transformer \<Rightarrow> (transformer \<times> upgrade_event) option" where
  "upgrade_transformer current_date t =
     (let old = rating_kva t;
          new = upgrade_path distribution_specs old
      in if new = 0 then None
         else Some
           (t\<lparr>rating_kva := new,
              upgrade_date := Some current_date,
              upgrade_history := upgrade_history t
                 @ [\<lparr>ue_date = current_date, old_rating = old, new_rating = new\<rparr>],
              capacity_utilization_pct := capacity_utilization_pct t * (old / new)\<rparr>,
            \<lparr>ev_date = current_date, ev_transformer_id = transformer_id t,
             old_rating_kva = old, new_rating_kva = new\<rparr>))"

text \<open>
  v1.2, \<open>simulate_monthly_events\<close>, step 4. \<open>overloaded_transformers\<close> is the list of the
  positions in \<open>transformers_list\<close> of the overloaded distribution transformers (the source
  holds references to the same dictionaries). \<open>picks\<close> are the positions in that list
  which \<open>random.sample\<close> returned, in its order.
\<close>

definition overloaded_transformers :: "transformer list \<Rightarrow> nat list" where
  "overloaded_transformers ts =
     filter (\<lambda>i. 85 < capacity_utilization_pct (ts ! i)
                 \<and> transformer_type (ts ! i) = ''distribution'') [0..<length ts]"

fun upgrade_each ::
  "int \<Rightarrow> nat list \<Rightarrow> transformer list \<Rightarrow> upgrade_event list
     \<Rightarrow> (transformer list \<times> upgrade_event list) option" where
  "upgrade_each current_date [] ts events = Some (ts, events)"
| "upgrade_each current_date (i # rest) ts events =
     (case upgrade_transformer current_date (ts ! i) of
        None \<Rightarrow> None
      | Some (t', ev) \<Rightarrow> upgrade_each current_date rest (ts[i := t']) (events @ [ev]))"

definition valid_sample :: "nat list \<Rightarrow> nat \<Rightarrow> bool" where
  "valid_sample picks n = (distinct picks \<and> list_all (\<lambda>p. p < n) picks)"

definition transformer_upgrades_v12 ::
  "int \<Rightarrow> nat list \<Rightarrow> transformer list \<Rightarrow> (transformer list \<times> upgrade_event list) option" where
  "transformer_upgrades_v12 current_date picks ts =
     (let overloaded = overloaded_transformers ts
      in upgrade_each current_date (map (\<lambda>p. overloaded ! p) picks) ts [])"

text \<open>
  v1.3, \<open>simulate_monthly_events_region\<close>, step 3: every distribution transformer above 85%
  is upgraded when its own draw is below 0.02. \<open>draw i\<close> is the value of \<open>random.random()\<close>
  for the transformer at position \<open>i\<close>.
\<close>

fun upgrades_loop_v13 ::
  "int \<Rightarrow> (nat \<Rightarrow> rat) \<Rightarrow> nat \<Rightarrow> transformer list
     \<Rightarrow> (transformer list \<times> upgrade_event list) option" where
  "upgrades_loop_v13 current_date draw i [] = Some ([], [])"
| "upgrades_loop_v13 current_date draw i (t # ts) =
     (if transformer_type t = ''distribution'' \<and> 85 < capacity_utilization_pct t
         \<and> draw i < 2 / 100
      then (case upgrade_transformer current_date t of
              None \<Rightarrow> None
            | Some (t', ev) \<Rightarrow>
                (case upgrades_loop_v13 current_date draw (Suc i) ts of
                   None \<Rightarrow> None
                 | Some (ts', evs) \<Rightarrow> Some (t' # ts', ev # evs)))
      else (case upgrades_loop_v13 current_date draw (Suc i) ts of
              None \<Rightarrow> None
            | Some (ts', evs) \<Rightarrow> Some (t # ts', evs)))"

definition transformer_upgrades_v13 ::
  "int \<Rightarrow> (nat \<Rightarrow> rat) \<Rightarrow> transformer list \<Rightarrow> (transformer list \<times> upgrade_event list) option" where
  "transformer_upgrades_v13 current_date draw ts = upgrades_loop_v13 current_date draw 0 ts"

subsection \<open>Meter creation (datagenerator\_v1.2)\<close>

text \<open>
  \<open>random.randint(10000000000, 99999999999)\<close> returns any integer of that range.
\<close>

definition meter_number_draw :: "nat \<Rightarrow> bool" where
  "meter_number_draw n = (10000000000 \<le> n \<and> n \<le> 99999999999)"

text \<open>
  The record built by \<open>generate_initial_meters\<close> and by \<open>_generate_new_meter\<close>, from the
  values drawn for it.
\<close>

definition fresh_meter_record ::
  "nat \<Rightarrow> nat \<Rightarrow> int \<Rightarrow> string \<Rightarrow> string \<Rightarrow> bool \<Rightarrow> int option \<Rightarrow> nat \<Rightarrow> meter" where
  "fresh_meter_record cid number connection_date tariff mtype solar solar_date tid =
     \<lparr>consumer_id = cid, meter_number = number, previous_meter_number = None,
      meter_generation = 1, installation_date = connection_date, deactivation_date = None,
      is_active = True, tariff_category = tariff, meter_type = mtype,
      meter_status = ''Active'', has_solar = solar, solar_installation_date = solar_date,
      distribution_transformer_id = tid, lifecycle_events = []\<rparr>"

text \<open>
  \<open>generate_initial_meters\<close>: one record per seeded meter, with the meter number as drawn.
  \<open>seeds\<close> lists, per meter, the drawn consumer id, meter number, connection date, tariff,
  meter type, solar flag, solar date and transformer.
\<close>

type_synonym seed = "nat \<times> nat \<times> int \<times> string \<times> string \<times> bool \<times> int option \<times> nat"

definition generate_initial_meters :: "nat \<Rightarrow> seed list \<Rightarrow> meter list" where
  "generate_initial_meters num_meters seeds =
     take num_meters
       (map (\<lambda>(cid, number, cdate, tariff, mtype, solar, sdate, tid).
               fresh_meter_record cid number cdate tariff mtype solar sdate tid) seeds)"

text \<open>
  \<open>_generate_new_meter\<close>: the \<open>while True\<close> loop draws until the number is carried by no
  existing meter. \<open>draw k\<close> is the \<open>k\<close>-th value of \<open>random.randint\<close>; a loop that never
  finds a free number does not return.
\<close>

partial_function (option) unique_meter_number :: "(nat \<Rightarrow> nat) \<Rightarrow> nat \<Rightarrow> meter list \<Rightarrow> nat option" where
  "unique_meter_number draw k existing_meters =
     (if \<not> list_ex (\<lambda>m. meter_number m = draw k) existing_meters then Some (draw k)
      else unique_meter_number draw (Suc k) existing_meters)"

declare unique_meter_number.simps [code]

definition generate_new_meter ::
  "nat \<Rightarrow> int \<Rightarrow> meter list \<Rightarrow> nat \<Rightarrow> (nat \<Rightarrow> nat) \<Rightarrow> string \<Rightarrow> bool \<Rightarrow> bool \<Rightarrow> meter option" where
  "generate_new_meter tid connection_date existing_meters cid draw tariff solar solar_dated =
     (case unique_meter_number draw 0 existing_meters of
        None \<Rightarrow> None
      | Some number \<Rightarrow>
          Some (fresh_meter_record cid number connection_date tariff ''Smart'' solar
                  (if solar_dated then Some connection_date else None) tid))"

text \<open>
  \<open>_replace_meter\<close>: a shallow copy of the old record with a newly drawn number. The copy
  shares the old record's \<open>lifecycle_events\<close> list, so the appended event shows in both;
  the function returns the new record and the old one as it then reads.
  \<open>smart_draw\<close> is the value of \<open>random.random()\<close> of the meter-type upgrade.
\<close>

definition replace_meter :: "meter \<Rightarrow> int \<Rightarrow> nat \<Rightarrow> rat \<Rightarrow> meter \<times> meter" where
  "replace_meter old_meter replacement_date number smart_draw =
     (let events = lifecycle_events old_meter
                   @ [\<lparr>le_date = replacement_date, le_event = ''meter_replacement'',
                       le_old_meter = meter_number old_meter\<rparr>];
          new_meter = old_meter
            \<lparr>meter_number := number,
             previous_meter_number := Some (meter_number old_meter),
             meter_generation := meter_generation old_meter + 1,
             installation_date := replacement_date,
             deactivation_date := None,
             is_active := True,
             meter_status := ''Active'',
             meter_type := (if meter_type old_meter \<noteq> ''Smart'' \<and> 3 / 10 < smart_draw
                            then ''Smart'' else meter_type old_meter),
             lifecycle_events := events\<rparr>
      in (new_meter, old_meter\<lparr>lifecycle_events := events\<rparr>))"

text \<open>
  One iteration of the replacement loop of \<open>simulate_monthly_events\<close>: the meter at position
  \<open>i\<close> of \<open>meters_list\<close> (a member of \<open>active_meters\<close>) is replaced; the replacement is
  appended and the old record is deactivated in place.
\<close>

definition replacement_step :: "meter list \<Rightarrow> nat \<Rightarrow> int \<Rightarrow> nat \<Rightarrow> rat \<Rightarrow> meter list" where
  "replacement_step meters_list i current_date number smart_draw =
     (case replace_meter (meters_list ! i) current_date number smart_draw of
        (replacement, old') \<Rightarrow>
          (meters_list @ [replacement])
            [i := old'\<lparr>is_active := False, deactivation_date := Some current_date,
                       meter_status := ''Replaced''\<rparr>])"

text \<open>The new-connection loop appends the meter that \<open>_generate_new_meter\<close> returned.\<close>

definition new_connection_step ::
  "meter list \<Rightarrow> nat \<Rightarrow> int \<Rightarrow> nat \<Rightarrow> (nat \<Rightarrow> nat) \<Rightarrow> string \<Rightarrow> bool \<Rightarrow> bool \<Rightarrow> meter list option" where
  "new_connection_step meters_list tid current_date cid draw tariff solar solar_dated =
     (case generate_new_meter tid current_date meters_list cid draw tariff solar solar_dated of
        None \<Rightarrow> None
      | Some new_meter \<Rightarrow> Some (meters_list @ [new_meter]))"

section \<open>Payment simulator (datagenerator\_v1.1)\<close>

datatype pay_status = Paid | Partial | Unpaid

record payment =
  bill_amount :: rat
  payment_status :: pay_status
  payment_date :: "int option"
  paid_amount :: rat
  outstanding_amount :: rat

text \<open>
  The draws of \<open>generate_bill_payments\<close> for one bill: the values of \<open>random.random()\<close>
  (paid or not, timing, partial or not, and the two behind \<open>random.uniform\<close>) and of
  \<open>random.randint\<close> (the day counts of the three timing branches and of the shift after
  the issue date). Payment method and transaction id are drawn independently and are
  left out.
\<close>

record payment_draws =
  paid_draw :: rat
  timing_draw :: rat
  days_before :: int
  days_after :: int
  days_late :: int
  u_late :: rat
  days_shift :: int
  partial_draw :: rat
  u_partial :: rat

definition valid_payment_draws :: "payment_draws \<Rightarrow> bool" where
  "valid_payment_draws d =
     (unit_draw (paid_draw d) \<and> unit_draw (timing_draw d) \<and> unit_draw (u_late d)
      \<and> unit_draw (partial_draw d) \<and> unit_draw (u_partial d)
      \<and> 1 \<le> days_before d \<and> days_before d \<le> 14
      \<and> 1 \<le> days_after d \<and> days_after d \<le> 7
      \<and> 8 \<le> days_late d \<and> days_late d \<le> 30
      \<and> 1 \<le> days_shift d \<and> days_shift d \<le> 5)"

text \<open>
  The local variables \<open>payment_date\<close>, \<open>paid_amount\<close> and \<open>payment_status\<close> at the end of
  the \<open>if is_paid\<close> branch.
\<close>

definition paid_branch :: "bill \<Rightarrow> payment_draws \<Rightarrow> int \<times> rat \<times> pay_status" where
  "paid_branch b d =
     (let (payment_date, paid) =
            (if timing_draw d < 60 / 100 then
               (due_date b - days_before d, amount_within_due_date b)
             else if timing_draw d < 85 / 100 then
               (due_date b + days_after d, amount_after_due_date b)
             else
               (due_date b + days_late d,
                amount_after_due_date b * uniform 1 (11 / 10) (u_late d)));
          payment_date = (if payment_date < issue_date b then issue_date b + days_shift d
                          else payment_date)
      in if partial_draw d < 5 / 100
         then (payment_date, paid * uniform (5 / 10) (95 / 100) (u_partial d), Partial)
         else (payment_date, paid, Paid))"

definition generate_bill_payment :: "bill \<Rightarrow> payment_draws \<Rightarrow> payment" where
  "generate_bill_payment b d =
     (let is_paid = (paid_draw d < 85 / 100)
      in if is_paid then
           (case paid_branch b d of (pdate, paid, status) \<Rightarrow>
              \<lparr>bill_amount = total_amount b, payment_status = status,
               payment_date = Some pdate, paid_amount = py_round paid 2,
               outstanding_amount = py_round (total_amount b - paid) 2\<rparr>)
         else
           \<lparr>bill_amount = total_amount b, payment_status = Unpaid,
            payment_date = None, paid_amount = 0,
            outstanding_amount = py_round (total_amount b - 0) 2\<rparr>)"

text \<open>The value of the local variable \<open>paid_amount\<close> before the record rounds it.\<close>

definition paid_before_rounding :: "bill \<Rightarrow> payment_draws \<Rightarrow> rat" where
  "paid_before_rounding b d =
     (if paid_draw d < 85 / 100 then fst (snd (paid_branch b d)) else 0)"

section \<open>Parallel pipeline (datagenerator\_v2.0\_parallel)\<close>

text \<open>
  The entries of \<open>meter_data\<close> that \<open>_generate_single_reading\<close> reads with \<open>.get\<close>; \<open>None\<close> is
  a missing key.
\<close>

record meter_data =
  sanctioned_load_kw :: "rat option"
  last_reading :: "rat option"

record preading =
  p_timestamp :: int
  p_reading_kwh :: rat
  consumption_kwh :: rat
  p_status :: string

text \<open>
  Timestamps are minutes since 1970-01-01 00:00. The consumption of an interval comes
  from the base simulator when one is loaded: \<open>base = Some patterns\<close>, where \<open>patterns t\<close> is
  what its \<open>generate_consumption_patterns\<close> returned at \<open>t\<close> (that module is not part of
  these sources, so its result is a parameter). Otherwise (\<open>base = None\<close>) the fallback
  runs, with \<open>draw t\<close> the value of \<open>random.random()\<close> at \<open>t\<close>.
\<close>

text \<open>\<open>meter_data.get('last_reading', 0)\<close>.\<close>

definition last_reading_or_zero :: "meter_data \<Rightarrow> rat" where
  "last_reading_or_zero md = (case last_reading md of Some r \<Rightarrow> r | None \<Rightarrow> 0)"

definition hour_of :: "int \<Rightarrow> int" where
  "hour_of t = (t div 60) mod 24"

definition fallback_consumption :: "meter_data \<Rightarrow> int \<Rightarrow> rat \<Rightarrow> rat" where
  "fallback_consumption md t u =
     (let base_load = (case sanctioned_load_kw md of Some l \<Rightarrow> l | None \<Rightarrow> 5);
          hour = hour_of t
      in if 18 \<le> hour \<and> hour \<le> 23 then base_load * uniform (7 / 10) (95 / 100) u
         else if 6 \<le> hour \<and> hour \<le> 9 then base_load * uniform (5 / 10) (7 / 10) u
         else base_load * uniform (2 / 10) (5 / 10) u)"

definition interval_consumption :: "(int \<Rightarrow> rat) option \<Rightarrow> (int \<Rightarrow> rat) \<Rightarrow> meter_data \<Rightarrow> int \<Rightarrow> rat" where
  "interval_consumption base draw md t =
     (case base of Some patterns \<Rightarrow> patterns t
      | None \<Rightarrow> fallback_consumption md t (draw t))"

definition generate_single_reading ::
  "(int \<Rightarrow> rat) option \<Rightarrow> (int \<Rightarrow> rat) \<Rightarrow> meter_data \<Rightarrow> int \<Rightarrow> meter_data \<times> preading" where
  "generate_single_reading base draw md t =
     (let consumption = interval_consumption base draw md t;
          prev_reading = (case last_reading md of Some r \<Rightarrow> r | None \<Rightarrow> 0);
          current_reading = prev_reading + consumption * (15 / 60)
      in (md\<lparr>last_reading := Some current_reading\<rparr>,
          \<lparr>p_timestamp = t,
           p_reading_kwh = py_round current_reading 2,
           consumption_kwh = py_round (consumption * (15 / 60)) 3,
           p_status = ''normal''\<rparr>))"

text \<open>
  \<open>_generate_month_readings\<close>: the loop \<open>while current_time <= month_end\<close>. With a
  frequency that is not positive it never ends, and the function does not return.
\<close>

partial_function (option) month_loop ::
  "(int \<Rightarrow> rat) option \<Rightarrow> (int \<Rightarrow> rat) \<Rightarrow> int \<Rightarrow> int \<Rightarrow> int \<Rightarrow> meter_data \<Rightarrow> preading list
     \<Rightarrow> (meter_data \<times> preading list) option" where
  "month_loop base draw frequency_minutes month_end current_time md readings =
     (if current_time \<le> month_end then
        month_loop base draw frequency_minutes month_end (current_time + frequency_minutes)
          (fst (generate_single_reading base draw md current_time))
          (readings @ [snd (generate_single_reading base draw md current_time)])
      else Some (md, readings))"

declare month_loop.simps [code]

definition generate_month_readings ::
  "(int \<Rightarrow> rat) option \<Rightarrow> (int \<Rightarrow> rat) \<Rightarrow> meter_data \<Rightarrow> int \<Rightarrow> int \<Rightarrow> int
     \<Rightarrow> (meter_data \<times> preading list) option" where
  "generate_month_readings base draw md month_start month_end frequency_minutes =
     month_loop base draw frequency_minutes month_end month_start md []"

subsection \<open>Calendar arithmetic of the month loop\<close>

text \<open>
  \<open>process_single_meter_pipeline\<close> computes its month windows with the standard library:
  \<open>datetime.strptime(s, '%Y-%m-%d')\<close> is midnight of the civil date, and
  \<open>relativedelta(months=1)\<close> moves to the same day of the next month, or to that month's
  last day when it is shorter. Both are modelled on the proleptic Gregorian calendar.
\<close>

definition is_leap :: "int \<Rightarrow> bool" where
  "is_leap y = (y mod 4 = 0 \<and> (y mod 100 \<noteq> 0 \<or> y mod 400 = 0))"

definition days_in_month :: "int \<Rightarrow> int \<Rightarrow> int" where
  "days_in_month y m =
     (if m = 2 then (if is_leap y then 29 else 28)
      else if m = 4 \<or> m = 6 \<or> m = 9 \<or> m = 11 then 30 else 31)"

definition days_from_civil :: "int \<Rightarrow> int \<Rightarrow> int \<Rightarrow> int" where
  "days_from_civil y m d =
     (let y' = (if m \<le> 2 then y - 1 else y);
          era = y' div 400;
          yoe = y' - era * 400;
          doy = (153 * (if 2 < m then m - 3 else m + 9) + 2) div 5 + d - 1;
          doe = yoe * 365 + yoe div 4 - yoe div 100 + doy
      in era * 146097 + doe - 719468)"

definition civil_from_days :: "int \<Rightarrow> int \<times> int \<times> int" where
  "civil_from_days z0 =
     (let z = z0 + 719468;
          era = z div 146097;
          doe = z - era * 146097;
          yoe = (doe - doe div 1460 + doe div 36524 - doe div 146096) div 365;
          doy = doe - (365 * yoe + yoe div 4 - yoe div 100);
          mp = (5 * doy + 2) div 153;
          d = doy - (153 * mp + 2) div 5 + 1;
          m = (if mp < 10 then mp + 3 else mp - 9);
          y = yoe + era * 400
      in (if m \<le> 2 then y + 1 else y, m, d))"

definition strptime :: "int \<Rightarrow> int \<Rightarrow> int \<Rightarrow> int" where
  "strptime y m d = days_from_civil y m d * 1440"

definition add_one_month :: "int \<Rightarrow> int" where
  "add_one_month t =
     (case civil_from_days (t div 1440) of (y, m, d) \<Rightarrow>
        let y' = (if m = 12 then y + 1 else y);
            m' = (if m = 12 then 1 else m + 1);
            d' = min d (days_in_month y' m')
        in days_from_civil y' m' d' * 1440 + t mod 1440)"

text \<open>
  The \<open>while current_date <= end_dt\<close> loop of \<open>process_single_meter_pipeline\<close>, restricted to
  the readings it collects in \<open>results['readings']\<close> and to \<open>meter_data\<close>.
\<close>

partial_function (option) pipeline_loop ::
  "(int \<Rightarrow> rat) option \<Rightarrow> (int \<Rightarrow> rat) \<Rightarrow> int \<Rightarrow> int \<Rightarrow> int \<Rightarrow> meter_data \<Rightarrow> preading list
     \<Rightarrow> (meter_data \<times> preading list) option" where
  "pipeline_loop base draw frequency_minutes end_dt current_date md readings =
     (if current_date \<le> end_dt then
        Option.bind
          (generate_month_readings base draw md current_date
             (if end_dt < add_one_month current_date - 1440 then end_dt
              else add_one_month current_date - 1440)
             frequency_minutes)
          (\<lambda>r. pipeline_loop base draw frequency_minutes end_dt (add_one_month current_date)
                 (fst r) (readings @ snd r))
      else Some (md, readings))"

declare pipeline_loop.simps [code]

definition process_single_meter_pipeline ::
  "(int \<Rightarrow> rat) option \<Rightarrow> (int \<Rightarrow> rat) \<Rightarrow> meter_data \<Rightarrow> int \<Rightarrow> int \<Rightarrow> int
     \<Rightarrow> (meter_data \<times> preading list) option" where
  "process_single_meter_pipeline base draw md start_date end_date frequency_minutes =
     pipeline_loop base draw frequency_minutes end_date start_date md []"

text \<open>
  The sampling grid between two instants: \<open>start\<close>, \<open>start + f\<close>, \<open>start + 2 f\<close>, ... up to
  \<open>stop\<close>.
\<close>

definition on_grid :: "int \<Rightarrow> int \<Rightarrow> int \<Rightarrow> int \<Rightarrow> bool" where
  "on_grid start stop f t = (start \<le> t \<and> t \<le> stop \<and> (t - start) mod f = 0)"

section \<open>Example inputs\<close>

text \<open>
  Concrete inputs for the examples below: a timestamp at midnight of a January weekday
  at minute \<open>t\<close>, the draws of one timestamp with a given base draw and defect draw
  (the other draws at 1/2, which makes the \<open>\<plusminus>10%\<close> variation the factor 1), and a
  small-industrial (\<open>B-1\<close>) meter without solar panels, installed at minute 0.
\<close>

definition january_midnight :: "int \<Rightarrow> timestamp" where
  "january_midnight t = \<lparr>ts_minute = t, ts_hour = 0, ts_month = 1, ts_dayofweek = 0\<rparr>"

definition draws_with :: "rat \<Rightarrow> rat \<Rightarrow> draws" where
  "draws_with ub rv =
     \<lparr>u_base = ub, u_solar = 1 / 2, u_variation = 1 / 2, rand_val = rv, u_spike = 1 / 2\<rparr>"

definition example_meter :: meter where
  "example_meter =
     \<lparr>consumer_id = 1234567, meter_number = 10000000000, previous_meter_number = None,
      meter_generation = 1, installation_date = 0, deactivation_date = None,
      is_active = True, tariff_category = ''B-1'', meter_type = ''Smart'',
      meter_status = ''Active'', has_solar = False, solar_installation_date = None,
      distribution_transformer_id = 1, lifecycle_events = []\<rparr>"

text \<open>
  Three consecutive timestamps of that meter. In \<open>grid_with_zero\<close> the middle draw falls
  in the zero-reading band, in \<open>grid_with_negative\<close> in the negative-reading band and in
  \<open>grid_with_missing\<close> the first draw falls in the missing-reading band; the other draws
  are above every band. \<open>grid_all_normal\<close> has two timestamps above every band.
\<close>

definition grid_with_zero :: "(timestamp \<times> draws) list" where
  "grid_with_zero =
     [(january_midnight 0, draws_with 0 (1 / 2)),
      (january_midnight 15, draws_with (1 / 2) (3 / 100)),
      (january_midnight 30, draws_with 0 (1 / 2))]"

definition grid_with_negative :: "(timestamp \<times> draws) list" where
  "grid_with_negative =
     [(january_midnight 0, draws_with 0 (1 / 2)),
      (january_midnight 15, draws_with (1 / 2) (21 / 1000)),
      (january_midnight 30, draws_with 0 (1 / 2))]"

definition grid_with_missing :: "(timestamp \<times> draws) list" where
  "grid_with_missing =
     [(january_midnight 0, draws_with 0 (1 / 100)),
      (january_midnight 15, draws_with 0 (1 / 2))]"

text \<open>
  \<open>grid_with_spike\<close>: the first draw falls in the abnormal-spike band, the two that
  follow are above every band.
\<close>

definition grid_with_spike :: "(timestamp \<times> draws) list" where
  "grid_with_spike =
     [(january_midnight 0, draws_with 0 (4 / 100)),
      (january_midnight 15, draws_with 0 (1 / 2)),
      (january_midnight 30, draws_with 0 (1 / 2))]"

text \<open>
  A month of two rows in which the register falls from 5 to 3; the second row is an
  Abnormal Spike.
\<close>

definition falling_month :: "reading list" where
  "falling_month =
     [\<lparr>r_timestamp = 0, reading_kwh = 5, energy_consumed_kwh = 1, data_quality_flag = Normal\<rparr>,
      \<lparr>r_timestamp = 15, reading_kwh = 3, energy_consumed_kwh = 2,
       data_quality_flag = Defect abnormal_spike\<rparr>]"

text \<open>
  Draws above every defect band whose variation draw is 1/3, so that the drawn consumption
  has more than three decimals.
\<close>

definition draws_third :: draws where
  "draws_third =
     \<lparr>u_base = 0, u_solar = 1 / 2, u_variation = 1 / 3, rand_val = 1 / 2, u_spike = 1 / 2\<rparr>"

definition grid_all_normal :: "(timestamp \<times> draws) list" where
  "grid_all_normal =
     [(january_midnight 0, draws_with 0 (1 / 2)),
      (january_midnight 15, draws_with (1 / 2) (1 / 2))]"

text \<open>A distribution transformer without upgrade history.\<close>

definition example_transformer :: "nat \<Rightarrow> rat \<Rightarrow> rat \<Rightarrow> transformer" where
  "example_transformer k rating utilization =
     \<lparr>transformer_id = k, transformer_type = ''distribution'', rating_kva = rating,
      capacity_utilization_pct = utilization, upgrade_date = None, upgrade_history = []\<rparr>"

text \<open>
  The bill for 2 units on tariff \<open>A-1a\<close> with a load of 3 kW, without TV fee or surcharge
  (total 72.84, after the due date 76.48), and the draws of a payment in full: before the
  due date when \<open>timing\<close> is below 0.60, within the week after it when \<open>timing\<close> is 0.7.
\<close>

definition example_bill :: bill where
  "example_bill = calculate_bill 2 ''A-1a'' 3 0 0 0"

definition payment_draws_with :: "rat \<Rightarrow> payment_draws" where
  "payment_draws_with timing =
     \<lparr>paid_draw = 0, timing_draw = timing, days_before = 3, days_after = 3, days_late = 10,
      u_late = 1 / 2, days_shift = 2, partial_draw = 1 / 2, u_partial = 1 / 2\<rparr>"

text \<open>Two seeds of the initial population that drew the same meter number.\<close>

definition colliding_seeds :: "seed list" where
  "colliding_seeds =
     [(1234567, 10000000000, 0, ''A-1a'', ''Smart'', False, None, 1),
      (7654321, 10000000000, 5, ''A-2a'', ''Smart'', False, None, 2)]"

section \<open>Properties of rounding\<close>

lemma round_half_even_divide:
  assumes "0 < b"
  shows "round_half_even (of_int a / of_int b) = rhe_int a b"
proof -
  have fl: "\<lfloor>(of_int a / of_int b :: rat)\<rfloor> = a div b"
    by (simp add: floor_divide_of_int_eq)
  have "(of_int a :: rat) = of_int (a div b) * of_int b + of_int (a mod b)"
    by (metis of_int_add of_int_mult div_mult_mod_eq)
  then have d: "(of_int a / of_int b :: rat) - of_int (a div b) = of_int (a mod b) / of_int b"
    using assms by (simp add: field_simps)
  have lt: "((of_int (a mod b) / of_int b :: rat) < 1 / 2) = (2 * (a mod b) < b)"
  proof -
    have "((of_int (a mod b) / of_int b :: rat) < 1 / 2)
          = ((of_int (2 * (a mod b)) :: rat) < of_int b)"
      using assms by (simp add: field_simps)
    then show ?thesis by (simp only: of_int_less_iff)
  qed
  have gt: "((1 / 2 :: rat) < of_int (a mod b) / of_int b) = (b < 2 * (a mod b))"
  proof -
    have "((1 / 2 :: rat) < of_int (a mod b) / of_int b)
          = ((of_int b :: rat) < of_int (2 * (a mod b)))"
      using assms by (simp add: field_simps)
    then show ?thesis by (simp only: of_int_less_iff)
  qed
  show ?thesis
    unfolding round_half_even_def rhe_int_def Let_def fl d lt gt by simp
qed

lemma py_round_numeral_frac:
  "py_round (numeral a / numeral b) n
   = of_int (rhe_int (numeral a * 10 ^ n) (numeral b)) / 10 ^ n"
proof -
  have "(numeral a / numeral b :: rat) * 10 ^ n
        = of_int (numeral a * 10 ^ n) / of_int (numeral b)"
    by simp
  then show ?thesis
    unfolding py_round_def using round_half_even_divide [of "numeral b" "numeral a * 10 ^ n"]
    by simp
qed

lemma py_round_neg_numeral_frac:
  "py_round (- (numeral a / numeral b)) n
   = of_int (rhe_int (- numeral a * 10 ^ n) (numeral b)) / 10 ^ n"
proof -
  have "(- (numeral a / numeral b) :: rat) * 10 ^ n
        = of_int (- numeral a * 10 ^ n) / of_int (numeral b)"
    by simp
  then show ?thesis
    unfolding py_round_def using round_half_even_divide [of "numeral b" "- numeral a * 10 ^ n"]
    by simp
qed

lemma round_half_even_of_int: "round_half_even (of_int k) = k"
  by (simp add: round_half_even_def)

lemma py_round_of_int: "py_round (of_int k) n = of_int k"
proof -
  have "(of_int k :: rat) * 10 ^ n = of_int (k * 10 ^ n)" by simp
  then have "round_half_even (of_int k * 10 ^ n) = k * 10 ^ n"
    using round_half_even_of_int by metis
  then show ?thesis by (simp add: py_round_def)
qed

lemma py_round_numeral: "py_round (numeral a) n = numeral a"
  using py_round_of_int [of "numeral a" n] by simp

lemma py_round_zero: "py_round 0 n = 0"
  using py_round_of_int [of 0 n] by simp

lemma py_round_one: "py_round 1 n = 1"
  using py_round_of_int [of 1 n] by simp

lemma py_round_neg_numeral: "py_round (- numeral a) n = - numeral a"
  using py_round_of_int [of "- numeral a" n] by simp

lemma py_round_neg_one: "py_round (- 1) n = - 1"
  using py_round_of_int [of "- 1" n] by simp

lemmas py_round_eval = py_round_numeral_frac py_round_neg_numeral_frac py_round_numeral
  py_round_zero py_round_one py_round_neg_numeral py_round_neg_one rhe_int_def Let_def

lemma round_half_even_bounds:
  "of_int (round_half_even x) - x \<le> 1 / 2 \<and> x - of_int (round_half_even x) \<le> 1 / 2"
proof -
  have a: "of_int \<lfloor>x\<rfloor> \<le> x" and b: "x < of_int \<lfloor>x\<rfloor> + 1" by linarith+
  show ?thesis
  proof (cases "x - of_int \<lfloor>x\<rfloor> < 1 / 2")
    case True
    then have "round_half_even x = \<lfloor>x\<rfloor>" by (simp add: round_half_even_def Let_def)
    with a True show ?thesis by linarith
  next
    case False
    then have "round_half_even x = \<lfloor>x\<rfloor> \<and> x - of_int \<lfloor>x\<rfloor> = 1 / 2
               \<or> round_half_even x = \<lfloor>x\<rfloor> + 1"
      by (auto simp add: round_half_even_def Let_def)
    then show ?thesis
    proof
      assume "round_half_even x = \<lfloor>x\<rfloor> \<and> x - of_int \<lfloor>x\<rfloor> = 1 / 2"
      then show ?thesis by linarith
    next
      assume "round_half_even x = \<lfloor>x\<rfloor> + 1"
      with b False show ?thesis by linarith
    qed
  qed
qed

lemma round_half_even_lower: "\<lfloor>x\<rfloor> \<le> round_half_even x"
  unfolding round_half_even_def Let_def by auto

lemma round_half_even_upper: "round_half_even x \<le> \<lfloor>x\<rfloor> + 1"
  unfolding round_half_even_def Let_def by auto

lemma round_half_even_mono:
  assumes "x \<le> y"
  shows "round_half_even x \<le> round_half_even y"
proof (cases "\<lfloor>x\<rfloor> = \<lfloor>y\<rfloor>")
  case True
  then have "x - of_int \<lfloor>x\<rfloor> \<le> y - of_int \<lfloor>y\<rfloor>" using assms by simp
  then show ?thesis
    unfolding round_half_even_def Let_def using True by auto
next
  case False
  have "\<lfloor>x\<rfloor> \<le> \<lfloor>y\<rfloor>" using assms by (rule floor_mono)
  with False have "\<lfloor>x\<rfloor> + 1 \<le> \<lfloor>y\<rfloor>" by simp
  then show ?thesis
    using round_half_even_upper [of x] round_half_even_lower [of y] by linarith
qed

lemma py_round_mono:
  assumes "x \<le> y"
  shows "py_round x n \<le> py_round y n"
proof -
  have "x * 10 ^ n \<le> y * 10 ^ n" using assms by simp
  then have "round_half_even (x * 10 ^ n) \<le> round_half_even (y * 10 ^ n)"
    by (rule round_half_even_mono)
  then have "(of_int (round_half_even (x * 10 ^ n)) :: rat)
             \<le> of_int (round_half_even (y * 10 ^ n))"
    by simp
  then show ?thesis
    unfolding py_round_def by (simp add: divide_right_mono)
qed

lemma py_round_error: "\<bar>py_round x n - x\<bar> \<le> 1 / (2 * 10 ^ n)"
proof -
  let ?p = "(10::rat) ^ n"
  have p: "0 < ?p" by simp
  let ?r = "(of_int (round_half_even (x * ?p)) :: rat)"
  have h: "\<bar>?r - x * ?p\<bar> \<le> 1 / 2"
    using round_half_even_bounds [of "x * ?p"] by linarith
  have "\<bar>?r - x * ?p\<bar> / ?p \<le> (1 / 2) / ?p"
    by (rule divide_right_mono [OF h]) simp
  moreover have "\<bar>?r - x * ?p\<bar> / ?p = \<bar>?r / ?p - x\<bar>"
  proof -
    have "?r / ?p - x = (?r - x * ?p) / ?p" using p by (simp add: field_simps)
    then show ?thesis using p by (simp add: abs_divide)
  qed
  ultimately show ?thesis unfolding py_round_def by simp
qed

lemma py_round_nonneg: "0 \<le> x \<Longrightarrow> 0 \<le> py_round x n"
proof -
  assume "0 \<le> x"
  then have "py_round 0 n \<le> py_round x n" by (rule py_round_mono)
  then show ?thesis by (simp add: py_round_zero)
qed

section \<open>Billing: slab charges and the bill total\<close>

lemmas bill_defs = calculate_bill_def calculate_bill_v12_def bill_of_amounts_def
  bill_amounts_v11_def bill_amounts_v12_def slabs_v11_def slabs_v12_def
  fixed_charge_v11_def fixed_charge_v12_def

text \<open>
  C2 (scenario A). For tariff \<open>A-1\<close>, connected load 3 kW and a consumption of exactly 250
  units, both \<open>calculate_bill\<close> (v1.1) and \<open>_calculate_bill\<close> (v1.2) charge 100 units at 5.79
  and the remaining 150 units at 8.11: the second slab's limit 200 is used as the width
  of the slab, not as the upper end of the band 101-200 that the source's comment gives.
  The variable charge is 1795.50, not 1900.00. The fixed charge is the below-5-kW amount
  50, GST is 18% of variable plus fixed, and duty is 1.5% of the variable charge, each
  rounded to two decimals.
\<close>

theorem C2_scenario_A_variable_charge:
  "variable_charges (calculate_bill 250 ''A-1'' 3 day tv late) = 17955 / 10
   \<and> variable_charges (calculate_bill_v12 250 ''A-1'' 3 day tv late) = 17955 / 10
   \<and> slab_loop (slabs_v11 ''A-1'') 250 0 = 100 * (579 / 100) + 150 * (811 / 100)
   \<and> slab_loop (slabs_v11 ''A-1'') 250 0 \<noteq> 1900
   \<and> fixed_charges (calculate_bill 250 ''A-1'' 3 day tv late) = 50
   \<and> gst (calculate_bill 250 ''A-1'' 3 day tv late)
       = py_round ((17955 / 10 + 50) * (18 / 100)) 2
   \<and> electricity_duty (calculate_bill 250 ''A-1'' 3 day tv late)
       = py_round (17955 / 10 * (15 / 1000)) 2"
  by (simp add: bill_defs py_round_eval)

lemma a_total_sum_v11:
  "a_total (bill_amounts_v11 c t l tv late)
   = a_variable (bill_amounts_v11 c t l tv late) + a_fixed (bill_amounts_v11 c t l tv late)
     + a_gst (bill_amounts_v11 c t l tv late) + a_duty (bill_amounts_v11 c t l tv late)
     + a_tv_fee (bill_amounts_v11 c t l tv late) + a_late (bill_amounts_v11 c t l tv late)"
  by (simp add: bill_amounts_v11_def Let_def)

lemma tv_fee_exact_v11:
  "py_round (a_tv_fee (bill_amounts_v11 c t l tv late)) 2
   = a_tv_fee (bill_amounts_v11 c t l tv late)"
  by (simp add: bill_amounts_v11_def Let_def py_round_eval)

lemma py_round2_error: "\<bar>py_round x 2 - x\<bar> \<le> 1 / 200"
  using py_round_error [of x 2] by simp

text \<open>
  C7, as stated, fails: for 2 units on tariff \<open>A-1a\<close> with load 3 kW, no TV fee and no
  surcharge, the stored components are 11.58, 50, 11.08 (from 11.0844) and 0.17 (from
  0.1737), which add up to 72.83, while the stored total is 72.84 (from 72.8381). The
  two differ by 0.01, far more than the tolerance.
\<close>

theorem C7_total_counterexample:
  "\<not> \<bar>total_amount (calculate_bill 2 ''A-1a'' 3 0 0 0)
       - py_round (variable_charges (calculate_bill 2 ''A-1a'' 3 0 0 0)
                   + fixed_charges (calculate_bill 2 ''A-1a'' 3 0 0 0)
                   + gst (calculate_bill 2 ''A-1a'' 3 0 0 0)
                   + electricity_duty (calculate_bill 2 ''A-1a'' 3 0 0 0)
                   + tv_fee (calculate_bill 2 ''A-1a'' 3 0 0 0)
                   + late_payment_surcharge (calculate_bill 2 ''A-1a'' 3 0 0 0)) 2\<bar>
      \<le> 1 / 1000000"
  by (simp add: bill_defs py_round_eval)

text \<open>
  C7, amended. The stored total of every bill is the two-decimal rounding of the sum of
  the unrounded components, and it differs from the sum of the stored (rounded)
  components by at most 0.03: half a cent for the total and for each of the five
  components that rounding can change (the TV fee is 0 or 35).
\<close>

theorem C7_total_of_unrounded_sum:
  "total_amount (calculate_bill c t l day tv late)
     = py_round (a_total (bill_amounts_v11 c t l tv late)) 2
   \<and> \<bar>total_amount (calculate_bill c t l day tv late)
       - (variable_charges (calculate_bill c t l day tv late)
          + fixed_charges (calculate_bill c t l day tv late)
          + gst (calculate_bill c t l day tv late)
          + electricity_duty (calculate_bill c t l day tv late)
          + tv_fee (calculate_bill c t l day tv late)
          + late_payment_surcharge (calculate_bill c t l day tv late))\<bar> \<le> 3 / 100"
proof -
  let ?a = "bill_amounts_v11 c t l tv late"
  have e1: "\<bar>py_round (a_total ?a) 2 - a_total ?a\<bar> \<le> 1 / 200" by (rule py_round2_error)
  have e2: "\<bar>py_round (a_variable ?a) 2 - a_variable ?a\<bar> \<le> 1 / 200" by (rule py_round2_error)
  have e3: "\<bar>py_round (a_fixed ?a) 2 - a_fixed ?a\<bar> \<le> 1 / 200" by (rule py_round2_error)
  have e4: "\<bar>py_round (a_gst ?a) 2 - a_gst ?a\<bar> \<le> 1 / 200" by (rule py_round2_error)
  have e5: "\<bar>py_round (a_duty ?a) 2 - a_duty ?a\<bar> \<le> 1 / 200" by (rule py_round2_error)
  have e6: "\<bar>py_round (a_late ?a) 2 - a_late ?a\<bar> \<le> 1 / 200" by (rule py_round2_error)
  have e7: "py_round (a_tv_fee ?a) 2 = a_tv_fee ?a" by (rule tv_fee_exact_v11)
  have s: "a_total ?a
           = a_variable ?a + a_fixed ?a + a_gst ?a + a_duty ?a + a_tv_fee ?a + a_late ?a"
    by (rule a_total_sum_v11)
  have "\<bar>py_round (a_total ?a) 2
         - (py_round (a_variable ?a) 2 + py_round (a_fixed ?a) 2 + py_round (a_gst ?a) 2
            + py_round (a_duty ?a) 2 + py_round (a_tv_fee ?a) 2 + py_round (a_late ?a) 2)\<bar>
        \<le> 3 / 100"
    using e1 e2 e3 e4 e5 e6 unfolding e7 s by linarith
  then show ?thesis
    by (simp add: calculate_bill_def bill_of_amounts_def)
qed

section \<open>Reading generators: defect bands and the order of the registers\<close>

lemma P11_values:
  "P11 missing_reading = 2 / 100" "P11 negative_reading = 5 / 1000"
  "P11 zero_reading = 1 / 100" "P11 abnormal_spike = 1 / 100"
  "P11 voltage_sag = 15 / 1000" "P11 frequency_variation = 1 / 100"
  "P11 signal_drop = 2 / 100" "P11 battery_fault = 5 / 1000"
  by (simp_all add: P11_def prob_of_def issue_probabilities_v11_def)

lemma defect_chain_v11_bands:
  "defect_chain_v11 rv k c cum prev =
     (if rv < 20 / 1000 then None
      else if rv < 25 / 1000 then Some (- c, prev + c)
      else if rv < 35 / 1000 then Some (0, cum)
      else if rv < 45 / 1000 then Some (c * k, cum + c * k)
      else if rv < 95 / 1000 then Some (c, cum)
      else Some (c, cum + c))"
  by (simp add: defect_chain_v11_def P11_values)

lemma determine_quality_flag_bands:
  "determine_quality_flag rv =
     (if rv < 20 / 1000 then Defect missing_reading
      else if rv < 25 / 1000 then Defect negative_reading
      else if rv < 35 / 1000 then Defect zero_reading
      else if rv < 45 / 1000 then Defect abnormal_spike
      else if rv < 60 / 1000 then Defect voltage_sag
      else if rv < 70 / 1000 then Defect frequency_variation
      else if rv < 90 / 1000 then Defect signal_drop
      else if rv < 95 / 1000 then Defect battery_fault
      else Normal)"
  by (simp add: determine_quality_flag_def issue_probabilities_v11_def)

lemma normal_flag_v11: "(determine_quality_flag rv = Normal) = (95 / 1000 \<le> rv)"
  by (simp add: determine_quality_flag_bands)

lemma apply_data_quality_issues_bands:
  "apply_data_quality_issues rv c cum prev =
     (if rv < 20 / 1000 then (c, cum, Defect missing_reading)
      else if rv < 25 / 1000 then (- c, prev - c, Defect negative_reading)
      else if rv < 35 / 1000 then (0, prev, Defect zero_reading)
      else if rv < 45 / 1000 then (c * 10, cum + c * 9, Defect abnormal_spike)
      else if rv < 60 / 1000 then (c, cum, Defect voltage_sag)
      else if rv < 70 / 1000 then (c, cum, Defect frequency_variation)
      else if rv < 90 / 1000 then (c, cum, Defect signal_drop)
      else if rv < 95 / 1000 then (c, cum, Defect battery_fault)
      else if rv < 98 / 1000 then (c * (3 / 10), prev + c * (3 / 10), Defect meter_tamper)
      else if rv < 100 / 1000 then (- c, prev - c, Defect reverse_energy)
      else (c, cum, Normal))"
  by (simp add: apply_data_quality_issues_def issue_probabilities_v12_def)

lemma uniform_lower: "a \<le> b \<Longrightarrow> 0 \<le> u \<Longrightarrow> a \<le> uniform a b u"
  by (simp add: uniform_def)

lemma uniform_upper: "a \<le> b \<Longrightarrow> u \<le> 1 \<Longrightarrow> uniform a b u \<le> b"
proof -
  assume ab: "a \<le> b" and u: "u \<le> 1"
  have "(b - a) * u \<le> (b - a) * 1"
    by (rule mult_left_mono) (use ab u in simp_all)
  then show ?thesis by (simp add: uniform_def)
qed

lemma monthly_multiplier_nonneg: "0 \<le> monthly_multiplier m"
  by simp

lemma consumption_params_v11_ordered:
  "consumption_params_v11 tariff = (bmin, bmax, pmin, pmax)
   \<Longrightarrow> 0 \<le> bmin \<and> bmin \<le> bmax \<and> 0 \<le> pmin \<and> pmin \<le> pmax"
  by (auto simp add: consumption_params_v11_def split: if_splits)

lemma drawn_consumption_v11_nonneg:
  assumes "valid_draws d"
  shows "0 \<le> drawn_consumption_v11 tariff ts d"
proof -
  obtain bmin bmax pmin pmax where p: "consumption_params_v11 tariff = (bmin, bmax, pmin, pmax)"
    by (metis prod_cases4)
  from consumption_params_v11_ordered [OF p]
  have o: "0 \<le> bmin" "bmin \<le> bmax" "0 \<le> pmin" "pmin \<le> pmax" by simp_all
  have ub: "0 \<le> u_base d" and uv: "0 \<le> u_variation d"
    using assms by (simp_all add: valid_draws_def unit_draw_def)
  have b1: "0 \<le> uniform pmin pmax (u_base d)"
    using uniform_lower [OF o(4) ub] o(3) by linarith
  have b2: "0 \<le> uniform bmin bmax (u_base d)"
    using uniform_lower [OF o(2) ub] o(1) by linarith
  have v: "0 \<le> uniform (9 / 10) (11 / 10) (u_variation d)"
    using uniform_lower [of "9 / 10" "11 / 10" "u_variation d"] uv by simp
  have m: "0 \<le> monthly_multiplier (ts_month ts)" by (rule monthly_multiplier_nonneg)
  show ?thesis
    unfolding drawn_consumption_v11_def p Let_def
    using b1 b2 v m by (simp del: monthly_multiplier.simps)
qed

lemma reading_step_v11_invariant:
  assumes v: "valid_draws d" and inv: "previous_reading s \<le> cumulative_reading s"
    and st: "reading_step_v11 tariff s (ts, d) = (s', ro)"
  shows "previous_reading s' \<le> cumulative_reading s'
         \<and> previous_reading s \<le> previous_reading s'
         \<and> (\<forall>r. ro = Some r \<longrightarrow> reading_kwh r = py_round (previous_reading s') 3)"
proof -
  let ?c = "drawn_consumption_v11 tariff ts d"
  let ?k = "uniform 5 10 (u_spike d)"
  have c: "0 \<le> ?c" using v by (rule drawn_consumption_v11_nonneg)
  have "0 \<le> u_spike d" using v by (simp add: valid_draws_def unit_draw_def)
  then have "5 \<le> ?k" using uniform_lower [of 5 10 "u_spike d"] by simp
  then have k: "0 \<le> ?k" by linarith
  have ck: "0 \<le> ?c * ?k" using c k by (rule mult_nonneg_nonneg)
  show ?thesis
    using st inv c ck
    unfolding reading_step_v11_def defect_chain_v11_bands Let_def
    by (auto split: if_splits)
qed

lemma readings_loop_v11_sorted:
  "list_all (\<lambda>td. valid_draws (snd td)) grid \<Longrightarrow>
   previous_reading s \<le> cumulative_reading s \<Longrightarrow>
   sorted (map reading_kwh (readings_loop_v11 tariff s grid))
   \<and> (\<forall>r \<in> set (readings_loop_v11 tariff s grid).
         py_round (previous_reading s) 3 \<le> reading_kwh r)"
proof (induction grid arbitrary: s)
  case Nil
  then show ?case by simp
next
  case (Cons td grid)
  obtain ts d where td: "td = (ts, d)" by (cases td)
  obtain s' ro where st: "reading_step_v11 tariff s (ts, d) = (s', ro)"
    by (cases "reading_step_v11 tariff s (ts, d)")
  have v: "valid_draws d" and vs: "list_all (\<lambda>td. valid_draws (snd td)) grid"
    using Cons.prems(1) td by simp_all
  from reading_step_v11_invariant [OF v Cons.prems(2) st]
  have inv': "previous_reading s' \<le> cumulative_reading s'"
    and up: "previous_reading s \<le> previous_reading s'"
    and rd: "\<forall>r. ro = Some r \<longrightarrow> reading_kwh r = py_round (previous_reading s') 3"
    by simp_all
  note IH = Cons.IH [OF vs inv']
  have le: "py_round (previous_reading s) 3 \<le> py_round (previous_reading s') 3"
    using up by (rule py_round_mono)
  show ?case
  proof (cases ro)
    case None
    then show ?thesis using IH le st td by fastforce
  next
    case (Some r)
    then show ?thesis using IH le st td rd by fastforce
  qed
qed

lemma sorted_filter_map:
  "sorted (map f xs) \<Longrightarrow> sorted (map f (filter P xs))"
  by (induction xs) auto

lemma get_consumption_params_ordered:
  "get_consumption_params tariff = (bmin, bmax, pmin, pmax)
   \<Longrightarrow> 0 \<le> bmin \<and> bmin \<le> bmax \<and> 0 \<le> pmin \<and> pmin \<le> pmax"
  by (auto simp add: get_consumption_params_def split: if_splits)

lemma drawn_consumption_v12_nonneg:
  assumes "valid_draws d"
  shows "0 \<le> drawn_consumption_v12 m ts d"
proof -
  obtain bmin bmax pmin pmax
    where p: "get_consumption_params (tariff_category m) = (bmin, bmax, pmin, pmax)"
    by (metis prod_cases4)
  from get_consumption_params_ordered [OF p]
  have o: "0 \<le> bmin" "bmin \<le> bmax" "0 \<le> pmin" "pmin \<le> pmax" by simp_all
  have ub: "0 \<le> u_base d" and uv: "0 \<le> u_variation d" and us: "0 \<le> u_solar d"
    using assms by (simp_all add: valid_draws_def unit_draw_def)
  have b1: "0 \<le> uniform pmin pmax (u_base d)"
    using uniform_lower [OF o(4) ub] o(3) by linarith
  have b2: "0 \<le> uniform bmin bmax (u_base d)"
    using uniform_lower [OF o(2) ub] o(1) by linarith
  have v: "0 \<le> uniform (9 / 10) (11 / 10) (u_variation d)"
    using uniform_lower [of "9 / 10" "11 / 10" "u_variation d"] uv by simp
  have sf: "0 \<le> uniform (3 / 10) (8 / 10) (u_solar d)"
    using uniform_lower [of "3 / 10" "8 / 10" "u_solar d"] us by simp
  show ?thesis
    unfolding drawn_consumption_v12_def p Let_def
    using b1 b2 v sf by simp
qed

lemma reading_step_v12_invariant:
  assumes v: "valid_draws d" and inv: "cumulative_reading s = previous_reading s"
    and st: "reading_step_v12 m fs s (ts, d) = (s', ro)"
  shows "cumulative_reading s' = previous_reading s'
         \<and> (ro = None \<longrightarrow> s' = s)
         \<and> (\<forall>r. ro = Some r \<longrightarrow>
               reading_kwh r = py_round (previous_reading s') 3
               \<and> (lowers_register (data_quality_flag r)
                   \<or> previous_reading s \<le> previous_reading s'))"
proof -
  let ?c = "drawn_consumption_v12 m ts d"
  have c: "0 \<le> ?c" using v by (rule drawn_consumption_v12_nonneg)
  show ?thesis
    using st inv c
    unfolding reading_step_v12_def apply_data_quality_issues_bands Let_def lowers_register_def
    by (auto split: if_splits)
qed

lemma readings_loop_v12_ordered:
  "list_all (\<lambda>td. valid_draws (snd td)) grid \<Longrightarrow>
   cumulative_reading s = previous_reading s \<Longrightarrow>
   ordered_from (py_round (previous_reading s) 3) (readings_loop_v12 m fs s grid)"
proof (induction grid arbitrary: s)
  case Nil
  then show ?case by simp
next
  case (Cons td grid)
  obtain ts d where td: "td = (ts, d)" by (cases td)
  obtain s' ro where st: "reading_step_v12 m fs s (ts, d) = (s', ro)"
    by (cases "reading_step_v12 m fs s (ts, d)")
  have v: "valid_draws d" and vs: "list_all (\<lambda>td. valid_draws (snd td)) grid"
    using Cons.prems(1) td by simp_all
  from reading_step_v12_invariant [OF v Cons.prems(2) st]
  have inv': "cumulative_reading s' = previous_reading s'"
    and same: "ro = None \<longrightarrow> s' = s"
    and rd: "\<forall>r. ro = Some r \<longrightarrow>
               reading_kwh r = py_round (previous_reading s') 3
               \<and> (lowers_register (data_quality_flag r)
                   \<or> previous_reading s \<le> previous_reading s')"
    by simp_all
  note IH = Cons.IH [OF vs inv']
  show ?case
  proof (cases ro)
    case None
    then show ?thesis using IH same st td by simp
  next
    case (Some r)
    with rd have k: "reading_kwh r = py_round (previous_reading s') 3"
      and l: "lowers_register (data_quality_flag r) \<or> previous_reading s \<le> previous_reading s'"
      by simp_all
    from l have "lowers_register (data_quality_flag r)
                 \<or> py_round (previous_reading s) 3 \<le> reading_kwh r"
      using py_round_mono [of "previous_reading s" "previous_reading s'" 3] k by auto
    then show ?thesis using IH st td Some k by simp
  qed
qed

lemma ordered_from_step:
  "ordered_from q rs \<Longrightarrow> Suc i < length rs \<Longrightarrow>
   \<not> lowers_register (data_quality_flag (rs ! Suc i)) \<Longrightarrow>
   reading_kwh (rs ! i) \<le> reading_kwh (rs ! Suc i)"
proof (induction rs arbitrary: q i)
  case Nil
  then show ?case by simp
next
  case (Cons r rs)
  show ?case
  proof (cases i)
    case 0
    with Cons.prems show ?thesis by (cases rs) auto
  next
    case (Suc n)
    with Cons.prems Cons.IH [of "reading_kwh r" n] show ?thesis by simp
  qed
qed

lemma ordered_from_between:
  assumes o: "ordered_from q rs"
  shows "i \<le> j \<Longrightarrow> j < length rs \<Longrightarrow>
         (\<forall>k. i < k \<and> k \<le> j \<longrightarrow> \<not> lowers_register (data_quality_flag (rs ! k))) \<Longrightarrow>
         reading_kwh (rs ! i) \<le> reading_kwh (rs ! j)"
proof (induction j)
  case 0
  then show ?case by simp
next
  case (Suc j)
  show ?case
  proof (cases "i = Suc j")
    case True
    then show ?thesis by simp
  next
    case False
    with Suc.prems have ij: "i \<le> j" and jl: "j < length rs" by simp_all
    have "reading_kwh (rs ! i) \<le> reading_kwh (rs ! j)"
      using Suc.IH [OF ij jl] Suc.prems(3) by simp
    moreover have "reading_kwh (rs ! j) \<le> reading_kwh (rs ! Suc j)"
      using ordered_from_step [OF o, of j] Suc.prems ij by simp
    ultimately show ?thesis by linarith
  qed
qed

section \<open>Register monotonicity\<close>

lemmas example_defs = january_midnight_def draws_with_def example_meter_def
  grid_with_zero_def grid_with_negative_def grid_with_missing_def grid_all_normal_def
  grid_with_spike_def draws_third_def

lemmas v11_eval = generate_readings_v11_def reading_step_v11_def drawn_consumption_v11_def
  consumption_params_v11_def is_peak_def uniform_def defect_chain_v11_bands
  determine_quality_flag_bands py_round_eval example_defs

lemmas v12_eval = generate_readings_dynamic_def reading_step_v12_def skipped_v12_def
  drawn_consumption_v12_def get_consumption_params_def solar_active_def is_peak_def
  uniform_def apply_data_quality_issues_bands py_round_eval example_defs

lemma grids_valid:
  "list_all (\<lambda>td. valid_draws (snd td)) grid_with_zero"
  "list_all (\<lambda>td. valid_draws (snd td)) grid_with_negative"
  "list_all (\<lambda>td. valid_draws (snd td)) grid_with_missing"
  "list_all (\<lambda>td. valid_draws (snd td)) grid_all_normal"
  by (simp_all add: example_defs valid_draws_def unit_draw_def)

lemma dynamic_with_negative:
  "map (\<lambda>r. (data_quality_flag r, reading_kwh r, energy_consumed_kwh r))
     (generate_readings_dynamic example_meter [] grid_with_negative)
   = [(Normal, 1, 1), (Defect negative_reading, - 1, - 2), (Normal, 0, 1)]"
  by (simp add: v12_eval)

lemma dynamic_with_zero:
  "map (\<lambda>r. (data_quality_flag r, reading_kwh r, energy_consumed_kwh r))
     (generate_readings_dynamic example_meter [] grid_with_zero)
   = [(Normal, 1, 1), (Defect zero_reading, 1, 0), (Normal, 2, 1)]"
  by (simp add: v12_eval)

lemma v11_with_missing:
  "map (\<lambda>r. (data_quality_flag r, reading_kwh r, energy_consumed_kwh r))
     (generate_readings_v11 ''B-1'' grid_with_missing)
   = [(Normal, 21 / 10, 7 / 10)]"
  by (simp add: v11_eval)

lemma v11_with_zero:
  "map (\<lambda>r. (data_quality_flag r, reading_kwh r, energy_consumed_kwh r))
     (generate_readings_v11 ''B-1'' grid_with_zero)
   = [(Normal, 14 / 10, 7 / 10), (Defect zero_reading, 35 / 10, 0), (Normal, 49 / 10, 7 / 10)]"
  by (simp add: v11_eval)

text \<open>
  C3, as stated, fails in v1.2. On \<open>grid_with_negative\<close> the meter emits a Normal reading
  with register 1, a Negative Reading with register \<open>1 - 2 = -1\<close>, and then a Normal reading
  with register \<open>-1 + 1 = 0\<close>: the two successive Normal readings show 1 and then 0.
\<close>

theorem C3_negative_reading_counterexample:
  "map (\<lambda>r. (data_quality_flag r, reading_kwh r))
     (generate_readings_dynamic example_meter [] grid_with_negative)
   = [(Normal, 1), (Defect negative_reading, - 1), (Normal, 0)]
   \<and> \<not> sorted (map reading_kwh
                  (normal_readings (generate_readings_dynamic example_meter [] grid_with_negative)))"
  by (simp add: v12_eval normal_readings_def)

text \<open>
  C3, amended. With every draw in \<open>[0, 1)\<close>: in v1.1 the registers of the Normal readings
  of a meter never decrease along the emitted sequence; in v1.2 the register of a Normal
  reading is at least that of an earlier Normal reading whenever no reading flagged
  Negative Reading or Reverse Energy lies between the two.
\<close>

theorem C3_register_order_between_normal_readings:
  assumes "list_all (\<lambda>td. valid_draws (snd td)) grid"
  shows "sorted (map reading_kwh (normal_readings (generate_readings_v11 tariff grid)))
         \<and> (\<forall>i j. i < j \<and> j < length (generate_readings_dynamic m fs grid)
               \<and> data_quality_flag (generate_readings_dynamic m fs grid ! i) = Normal
               \<and> data_quality_flag (generate_readings_dynamic m fs grid ! j) = Normal
               \<and> (\<forall>k. i < k \<and> k < j \<longrightarrow>
                      \<not> lowers_register
                          (data_quality_flag (generate_readings_dynamic m fs grid ! k)))
               \<longrightarrow> reading_kwh (generate_readings_dynamic m fs grid ! i)
                    \<le> reading_kwh (generate_readings_dynamic m fs grid ! j))"
proof
  have "sorted (map reading_kwh (generate_readings_v11 tariff grid))"
    unfolding generate_readings_v11_def
    using readings_loop_v11_sorted [OF assms, of "\<lparr>cumulative_reading = 0, previous_reading = 0\<rparr>"]
    by simp
  then show "sorted (map reading_kwh (normal_readings (generate_readings_v11 tariff grid)))"
    unfolding normal_readings_def by (rule sorted_filter_map)
next
  let ?rs = "generate_readings_dynamic m fs grid"
  have o: "ordered_from (py_round 0 3) ?rs"
    unfolding generate_readings_dynamic_def
    using readings_loop_v12_ordered [OF assms, of "\<lparr>cumulative_reading = 0, previous_reading = 0\<rparr>"]
    by simp
  show "\<forall>i j. i < j \<and> j < length ?rs
          \<and> data_quality_flag (?rs ! i) = Normal \<and> data_quality_flag (?rs ! j) = Normal
          \<and> (\<forall>k. i < k \<and> k < j \<longrightarrow> \<not> lowers_register (data_quality_flag (?rs ! k)))
          \<longrightarrow> reading_kwh (?rs ! i) \<le> reading_kwh (?rs ! j)"
  proof (intro allI impI)
    fix i j
    assume a: "i < j \<and> j < length ?rs
          \<and> data_quality_flag (?rs ! i) = Normal \<and> data_quality_flag (?rs ! j) = Normal
          \<and> (\<forall>k. i < k \<and> k < j \<longrightarrow> \<not> lowers_register (data_quality_flag (?rs ! k)))"
    have nj: "\<not> lowers_register (data_quality_flag (?rs ! j))"
      using a by (simp add: lowers_register_def)
    have "\<forall>k. i < k \<and> k \<le> j \<longrightarrow> \<not> lowers_register (data_quality_flag (?rs ! k))"
    proof (intro allI impI)
      fix k assume "i < k \<and> k \<le> j"
      then have "k < j \<or> k = j" by auto
      then show "\<not> lowers_register (data_quality_flag (?rs ! k))"
        using a nj \<open>i < k \<and> k \<le> j\<close> by auto
    qed
    then show "reading_kwh (?rs ! i) \<le> reading_kwh (?rs ! j)"
      using ordered_from_between [OF o, of i j] a by simp
  qed
qed

text \<open>
  The theorem at \<open>grid_with_zero\<close>: the Normal readings 0 and 2 of the v1.2 meter, with a
  Zero Reading between them.
\<close>

theorem C3_register_order_witness:
  "list_all (\<lambda>td. valid_draws (snd td)) grid_with_zero
   \<and> sorted (map reading_kwh (normal_readings (generate_readings_v11 ''B-1'' grid_with_zero)))
   \<and> reading_kwh (generate_readings_dynamic example_meter [] grid_with_zero ! 0)
      \<le> reading_kwh (generate_readings_dynamic example_meter [] grid_with_zero ! 2)"
proof -
  let ?rs = "generate_readings_dynamic example_meter [] grid_with_zero"
  have h: "list_all (\<lambda>td. valid_draws (snd td)) grid_with_zero" by (rule grids_valid)
  note t = C3_register_order_between_normal_readings [OF h, of "''B-1''" example_meter "[]"]
  have flags: "map data_quality_flag ?rs = [Normal, Defect zero_reading, Normal]"
    by (simp add: v12_eval)
  have len: "length ?rs = 3" using flags by (metis length_map length_Cons list.size(3) numeral_3_eq_3)
  have f0: "data_quality_flag (?rs ! 0) = Normal"
    using flags len by (metis nth_map nth_Cons_0 zero_less_numeral)
  have f1: "data_quality_flag (?rs ! 1) = Defect zero_reading"
    using nth_map [of 1 ?rs data_quality_flag] flags len by simp
  have f2: "data_quality_flag (?rs ! 2) = Normal"
    using nth_map [of 2 ?rs data_quality_flag] flags len by simp
  have between: "\<forall>k. 0 < k \<and> k < 2 \<longrightarrow> \<not> lowers_register (data_quality_flag (?rs ! k))"
  proof (intro allI impI)
    fix k :: nat assume "0 < k \<and> k < 2"
    then have "k = 1" by simp
    then show "\<not> lowers_register (data_quality_flag (?rs ! k))"
      using f1 by (simp add: lowers_register_def)
  qed
  have "reading_kwh (?rs ! 0) \<le> reading_kwh (?rs ! 2)"
    using t len f0 f2 between by simp
  with h t show ?thesis by simp
qed

section \<open>Missing readings\<close>


text \<open>
  In v1.2 a draw in the missing-reading band returns the flag Missing Reading with the
  consumption and the register as computed, and the caller appends the record.
\<close>

lemma dynamic_with_missing:
  "map (\<lambda>r. (r_timestamp r, data_quality_flag r, reading_kwh r))
     (generate_readings_dynamic example_meter [] grid_with_missing)
   = [(0, Defect missing_reading, 1), (15, Normal, 2)]"
  by (simp add: v12_eval)




section \<open>Double counting of Normal readings in v1.1\<close>

lemma register_after_v11_all_normal:
  "list_all (\<lambda>td. 95 / 1000 \<le> rand_val (snd td)) grid \<Longrightarrow>
   cumulative_reading (register_after_v11 tariff s grid)
     = cumulative_reading s
       + 2 * sum_list (map (\<lambda>td. drawn_consumption_v11 tariff (fst td) (snd td)) grid)"
proof (induction grid arbitrary: s)
  case Nil
  then show ?case by simp
next
  case (Cons td grid)
  obtain ts d where td: "td = (ts, d)" by (cases td)
  have n: "95 / 1000 \<le> rand_val d" using Cons.prems td by simp
  have st: "cumulative_reading (fst (reading_step_v11 tariff s (ts, d)))
            = cumulative_reading s + 2 * drawn_consumption_v11 tariff ts d"
    using n by (simp add: reading_step_v11_def defect_chain_v11_bands Let_def)
  have "list_all (\<lambda>td. 95 / 1000 \<le> rand_val (snd td)) grid" using Cons.prems by simp
  from Cons.IH [OF this, of "fst (reading_step_v11 tariff s (ts, d))"] st td
  show ?case by simp
qed

lemma readings_loop_v11_all_normal:
  "list_all (\<lambda>td. 95 / 1000 \<le> rand_val (snd td)) grid \<Longrightarrow>
   map (\<lambda>r. (data_quality_flag r, energy_consumed_kwh r)) (readings_loop_v11 tariff s grid)
     = map (\<lambda>td. (Normal, py_round (drawn_consumption_v11 tariff (fst td) (snd td)) 3)) grid"
proof (induction grid arbitrary: s)
  case Nil
  then show ?case by simp
next
  case (Cons td grid)
  obtain ts d where td: "td = (ts, d)" by (cases td)
  have n: "95 / 1000 \<le> rand_val d" using Cons.prems td by simp
  have rest: "list_all (\<lambda>td. 95 / 1000 \<le> rand_val (snd td)) grid" using Cons.prems by simp
  obtain s' r where st: "reading_step_v11 tariff s (ts, d) = (s', Some r)"
    and r: "data_quality_flag r = Normal"
           "energy_consumed_kwh r = py_round (drawn_consumption_v11 tariff ts d) 3"
    using n by (simp add: reading_step_v11_def defect_chain_v11_bands
        determine_quality_flag_bands Let_def)
  show ?case using Cons.IH [OF rest, of s'] st r td by simp
qed

text \<open>
  C9, as stated, fails on the reported value. With a variation draw of 1/3 the drawn
  consumption is 203/300; the record reports 0.677, and the register advances by 203/150,
  which is not twice 0.677.
\<close>

theorem C9_reported_consumption_counterexample:
  "reading_step_v11 ''B-1'' \<lparr>cumulative_reading = 0, previous_reading = 0\<rparr>
       (january_midnight 0, draws_third)
     = (\<lparr>cumulative_reading = 203 / 150, previous_reading = 203 / 150\<rparr>,
        Some \<lparr>r_timestamp = 0, reading_kwh = 1353 / 1000, energy_consumed_kwh = 677 / 1000,
              data_quality_flag = Normal\<rparr>)
   \<and> (203 / 150 :: rat) - 0 \<noteq> 2 * (677 / 1000)"
  by (simp add: v11_eval)

text \<open>
  C9, amended. In v1.1 an emitted reading flagged Normal advances the running cumulative
  register by exactly twice the consumption drawn for it, whose three-decimal rounding is
  the reported \<open>energy_consumed_kwh\<close>; so the advance is within 0.001 of twice the reported
  value. Over a stretch of timestamps whose draws are all above the defect bands, every
  reading is Normal and the register advances by exactly twice the sum of the drawn
  consumptions.
\<close>

theorem C9_normal_reading_adds_consumption_twice:
  "(reading_step_v11 tariff s (ts, d) = (s', Some r) \<and> data_quality_flag r = Normal \<longrightarrow>
      cumulative_reading s' = cumulative_reading s + 2 * drawn_consumption_v11 tariff ts d
      \<and> energy_consumed_kwh r = py_round (drawn_consumption_v11 tariff ts d) 3
      \<and> reading_kwh r = py_round (cumulative_reading s') 3
      \<and> \<bar>(cumulative_reading s' - cumulative_reading s) - 2 * energy_consumed_kwh r\<bar>
          \<le> 1 / 1000)
   \<and> (list_all (\<lambda>td. 95 / 1000 \<le> rand_val (snd td)) grid \<longrightarrow>
        cumulative_reading (register_after_v11 tariff s grid)
          = cumulative_reading s
            + 2 * sum_list (map (\<lambda>td. drawn_consumption_v11 tariff (fst td) (snd td)) grid)
        \<and> map (\<lambda>r. (data_quality_flag r, energy_consumed_kwh r))
             (readings_loop_v11 tariff s grid)
          = map (\<lambda>td. (Normal, py_round (drawn_consumption_v11 tariff (fst td) (snd td)) 3))
              grid)"
proof (intro conjI impI)
  assume a: "reading_step_v11 tariff s (ts, d) = (s', Some r) \<and> data_quality_flag r = Normal"
  let ?c = "drawn_consumption_v11 tariff ts d"
  have n: "95 / 1000 \<le> rand_val d"
    using a by (auto simp add: reading_step_v11_def defect_chain_v11_bands
        determine_quality_flag_bands Let_def split: if_splits)
  show 1: "cumulative_reading s' = cumulative_reading s + 2 * ?c"
    using a n by (auto simp add: reading_step_v11_def defect_chain_v11_bands Let_def)
  show 2: "energy_consumed_kwh r = py_round ?c 3"
    using a n by (auto simp add: reading_step_v11_def defect_chain_v11_bands Let_def)
  show "reading_kwh r = py_round (cumulative_reading s') 3"
    using a n by (auto simp add: reading_step_v11_def defect_chain_v11_bands Let_def)
  have "\<bar>py_round ?c 3 - ?c\<bar> \<le> 1 / 2000" using py_round_error [of ?c 3] by simp
  then show "\<bar>(cumulative_reading s' - cumulative_reading s) - 2 * energy_consumed_kwh r\<bar>
             \<le> 1 / 1000"
    unfolding 1 2 by linarith
next
  assume "list_all (\<lambda>td. 95 / 1000 \<le> rand_val (snd td)) grid"
  then show "cumulative_reading (register_after_v11 tariff s grid)
          = cumulative_reading s
            + 2 * sum_list (map (\<lambda>td. drawn_consumption_v11 tariff (fst td) (snd td)) grid)"
    by (rule register_after_v11_all_normal)
next
  assume "list_all (\<lambda>td. 95 / 1000 \<le> rand_val (snd td)) grid"
  then show "map (\<lambda>r. (data_quality_flag r, energy_consumed_kwh r))
             (readings_loop_v11 tariff s grid)
          = map (\<lambda>td. (Normal, py_round (drawn_consumption_v11 tariff (fst td) (snd td)) 3))
              grid"
    by (rule readings_loop_v11_all_normal)
qed

text \<open>
  The theorem at the first timestamp of \<open>grid_all_normal\<close> (consumption 0.7, register from
  0 to 1.4) and on the whole grid (consumptions 0.7 and 2.1, register 5.6).
\<close>

theorem C9_normal_reading_witness:
  "reading_step_v11 ''B-1'' \<lparr>cumulative_reading = 0, previous_reading = 0\<rparr>
       (january_midnight 0, draws_with 0 (1 / 2))
     = (\<lparr>cumulative_reading = 14 / 10, previous_reading = 14 / 10\<rparr>,
        Some \<lparr>r_timestamp = 0, reading_kwh = 14 / 10, energy_consumed_kwh = 7 / 10,
              data_quality_flag = Normal\<rparr>)
   \<and> list_all (\<lambda>td. 95 / 1000 \<le> rand_val (snd td)) grid_all_normal
   \<and> (14 / 10 :: rat) = 0 + 2 * drawn_consumption_v11 ''B-1'' (january_midnight 0)
                                  (draws_with 0 (1 / 2))
   \<and> cumulative_reading
        (register_after_v11 ''B-1'' \<lparr>cumulative_reading = 0, previous_reading = 0\<rparr>
           grid_all_normal) = 56 / 10"
proof -
  let ?s = "\<lparr>cumulative_reading = 0, previous_reading = 0\<rparr>"
  let ?s' = "\<lparr>cumulative_reading = 14 / 10, previous_reading = 14 / 10\<rparr>"
  let ?r = "\<lparr>r_timestamp = 0, reading_kwh = 14 / 10, energy_consumed_kwh = 7 / 10,
             data_quality_flag = Normal\<rparr>"
  have h1: "reading_step_v11 ''B-1'' ?s (january_midnight 0, draws_with 0 (1 / 2))
            = (?s', Some ?r)"
    by (simp add: v11_eval)
  have h2: "data_quality_flag ?r = Normal" by simp
  have h3: "list_all (\<lambda>td. 95 / 1000 \<le> rand_val (snd td)) grid_all_normal"
    by (simp add: example_defs)
  have sum: "sum_list (map (\<lambda>td. drawn_consumption_v11 ''B-1'' (fst td) (snd td))
                         grid_all_normal) = 28 / 10"
    by (simp add: v11_eval)
  note t = C9_normal_reading_adds_consumption_twice
    [of "''B-1''" ?s "january_midnight 0" "draws_with 0 (1 / 2)" ?s' ?r grid_all_normal]
  from t h1 h2 have a: "cumulative_reading ?s'
      = cumulative_reading ?s
        + 2 * drawn_consumption_v11 ''B-1'' (january_midnight 0) (draws_with 0 (1 / 2))"
    by blast
  from t h3 have b: "cumulative_reading (register_after_v11 ''B-1'' ?s grid_all_normal)
      = cumulative_reading ?s
        + 2 * sum_list (map (\<lambda>td. drawn_consumption_v11 ''B-1'' (fst td) (snd td))
                          grid_all_normal)"
    by blast
  show ?thesis using h1 h3 a b unfolding sum by simp
qed

section \<open>Consumption billed for a month\<close>

lemma dynamic_with_spike:
  "generate_readings_dynamic example_meter [] grid_with_spike
   = [\<lparr>r_timestamp = 0, reading_kwh = 10, energy_consumed_kwh = 10,
       data_quality_flag = Defect abnormal_spike\<rparr>,
      \<lparr>r_timestamp = 15, reading_kwh = 11, energy_consumed_kwh = 1, data_quality_flag = Normal\<rparr>,
      \<lparr>r_timestamp = 30, reading_kwh = 12, energy_consumed_kwh = 1, data_quality_flag = Normal\<rparr>]"
  by (simp add: v12_eval)

text \<open>
  C1, as stated, fails. The v1.2 meter on \<open>grid_with_spike\<close> emits the registers 10
  (Abnormal Spike), 11 and 12 (Normal). The month's last register minus its first is 2 and
  non-negative, yet \<open>generate_monthly_bills_dynamic\<close> bills 1: it takes the first and last
  register of the Normal rows only. In v1.1 the fallback does not select the Normal rows
  either: for \<open>falling_month\<close> the Normal rows sum to 1, and \<open>generate_monthly_bills\<close> bills
  3, the sum of all positive interval consumptions.
\<close>

theorem C1_reconciliation_counterexample:
  "map reading_kwh (month_readings (generate_readings_dynamic example_meter [] grid_with_spike)
                       0 44640) = [10, 11, 12]
   \<and> consumption_v12 (month_readings (generate_readings_dynamic example_meter [] grid_with_spike)
                         0 44640) = Some 1
   \<and> sum_list (map energy_consumed_kwh (normal_readings falling_month)) = 1
   \<and> total_consumption_v11 falling_month = Some 3"
  by (simp add: dynamic_with_spike month_readings_def consumption_v12_def
      total_consumption_v11_def falling_month_def normal_readings_def)

lemma sum_list_positive_nonneg:
  "0 \<le> sum_list (map f (filter (\<lambda>r. (0::rat) < f r) xs))"
  by (induction xs) auto

text \<open>
  C1, amended. For every month with at least one reading a consumption is billed, and it
  is never negative. In v1.1 it is the month's last register minus its first when the
  last register is neither below the first nor negative, and otherwise the sum of the
  interval consumptions that are positive. In v1.2, when the month has more than one
  Normal reading, it is the last minus the first register of the Normal readings if that
  is non-negative and otherwise the sum of the interval consumption over the Normal
  readings, clamped at 0; with at most one Normal reading it is the sum of the interval
  consumption over all readings of the month, clamped at 0.
\<close>

theorem C1_billed_consumption:
  assumes "month_readings rs lo hi = mr" and "mr \<noteq> []"
  shows "\<exists>c11 c12. total_consumption_v11 mr = Some c11 \<and> consumption_v12 mr = Some c12
           \<and> 0 \<le> c11 \<and> 0 \<le> c12
           \<and> c11 = (if reading_kwh (last mr) < reading_kwh (hd mr) \<or> reading_kwh (last mr) < 0
                    then sum_list (map energy_consumed_kwh
                                    (filter (\<lambda>r. 0 < energy_consumed_kwh r) mr))
                    else reading_kwh (last mr) - reading_kwh (hd mr))
           \<and> c12 = (if 1 < length (normal_readings mr)
                    then (if reading_kwh (hd (normal_readings mr))
                               \<le> reading_kwh (last (normal_readings mr))
                          then reading_kwh (last (normal_readings mr))
                               - reading_kwh (hd (normal_readings mr))
                          else max 0 (sum_list (map energy_consumed_kwh (normal_readings mr))))
                    else max 0 (sum_list (map energy_consumed_kwh mr)))"
proof -
  have p: "0 \<le> sum_list (map energy_consumed_kwh (filter (\<lambda>r. 0 < energy_consumed_kwh r) mr))"
    by (rule sum_list_positive_nonneg)
  show ?thesis
    using assms(2) p
    by (auto simp add: total_consumption_v11_def consumption_v12_def normal_readings_def
        Let_def max_def)
qed

text \<open>
  The theorem on the three readings of \<open>grid_with_spike\<close>, all in the month \<open>[0, 44640)\<close>:
  v1.1 bills 12 - 10 = 2, v1.2 bills 12 - 11 = 1.
\<close>

theorem C1_billed_consumption_witness:
  "month_readings (generate_readings_dynamic example_meter [] grid_with_spike) 0 44640
     = generate_readings_dynamic example_meter [] grid_with_spike
   \<and> generate_readings_dynamic example_meter [] grid_with_spike \<noteq> []
   \<and> total_consumption_v11 (generate_readings_dynamic example_meter [] grid_with_spike) = Some 2
   \<and> consumption_v12 (generate_readings_dynamic example_meter [] grid_with_spike) = Some 1"
proof -
  let ?rs = "generate_readings_dynamic example_meter [] grid_with_spike"
  have h1: "month_readings ?rs 0 44640 = ?rs"
    by (simp add: dynamic_with_spike month_readings_def)
  have h2: "?rs \<noteq> []" by (simp add: dynamic_with_spike)
  from C1_billed_consumption [OF h1 h2]
  obtain c11 c12 where a: "total_consumption_v11 ?rs = Some c11" "consumption_v12 ?rs = Some c12"
    and b: "c11 = (if reading_kwh (last ?rs) < reading_kwh (hd ?rs) \<or> reading_kwh (last ?rs) < 0
                    then sum_list (map energy_consumed_kwh
                                    (filter (\<lambda>r. 0 < energy_consumed_kwh r) ?rs))
                    else reading_kwh (last ?rs) - reading_kwh (hd ?rs))"
    and c: "c12 = (if 1 < length (normal_readings ?rs)
                    then (if reading_kwh (hd (normal_readings ?rs))
                               \<le> reading_kwh (last (normal_readings ?rs))
                          then reading_kwh (last (normal_readings ?rs))
                               - reading_kwh (hd (normal_readings ?rs))
                          else max 0 (sum_list (map energy_consumed_kwh (normal_readings ?rs))))
                    else max 0 (sum_list (map energy_consumed_kwh ?rs)))"
    by blast
  have "c11 = 2" using b by (simp add: dynamic_with_spike)
  moreover have "c12 = 1" using c by (simp add: dynamic_with_spike normal_readings_def)
  ultimately show ?thesis using h1 h2 a by simp
qed

section \<open>Transformer upgrades\<close>

lemma upgrade_path_500: "upgrade_path distribution_specs 500 = 750"
  by (simp add: distribution_specs_def)

lemma upgrade_path_no_tier:
  "old \<notin> fst ` set specs \<Longrightarrow> upgrade_path specs old = old * (15 / 10)"
  by (induction specs) auto

lemma upgrade_path_positive:
  "0 < old \<Longrightarrow> 0 < upgrade_path distribution_specs old"
  by (simp add: distribution_specs_def)

lemma upgrade_transformer_500:
  "rating_kva t = 500 \<Longrightarrow>
   upgrade_transformer d t
   = Some (t\<lparr>rating_kva := 750, upgrade_date := Some d,
             upgrade_history := upgrade_history t
                @ [\<lparr>ue_date = d, old_rating = 500, new_rating = 750\<rparr>],
             capacity_utilization_pct := capacity_utilization_pct t * (500 / 750)\<rparr>,
           \<lparr>ev_date = d, ev_transformer_id = transformer_id t,
            old_rating_kva = 500, new_rating_kva = 750\<rparr>)"
  by (simp add: upgrade_transformer_def upgrade_path_500 Let_def)

lemma upgrade_transformer_returns:
  "0 < rating_kva t \<Longrightarrow> \<exists>t' ev. upgrade_transformer d t = Some (t', ev) \<and> 0 < rating_kva t'"
  using upgrade_path_positive [of "rating_kva t"]
  by (simp add: upgrade_transformer_def Let_def)

lemma overloaded_transformers_members:
  "i \<in> set (overloaded_transformers ts) \<Longrightarrow>
   i < length ts \<and> 85 < capacity_utilization_pct (ts ! i)
   \<and> transformer_type (ts ! i) = ''distribution''"
  by (simp add: overloaded_transformers_def)

lemma distinct_overloaded: "distinct (overloaded_transformers ts)"
  by (simp add: overloaded_transformers_def)

lemma picked_members:
  assumes "valid_sample picks (length ov)"
  shows "set (map (\<lambda>p. ov ! p) picks) \<subseteq> set ov"
  using assms by (auto simp add: valid_sample_def list_all_iff)

lemma picked_distinct:
  assumes "valid_sample picks (length ov)" and "distinct ov"
  shows "distinct (map (\<lambda>p. ov ! p) picks)"
proof -
  have "inj_on (\<lambda>p. ov ! p) (set picks)"
    using assms by (auto simp add: valid_sample_def list_all_iff inj_on_def nth_eq_iff_index_eq)
  then show ?thesis using assms(1) by (simp add: distinct_map valid_sample_def)
qed

lemma upgrade_each_result:
  "distinct idx \<Longrightarrow> \<forall>i \<in> set idx. i < length ts \<Longrightarrow>
   upgrade_each d idx ts evs = Some (ts', evs') \<Longrightarrow>
   length ts' = length ts
   \<and> length evs' = length evs + length idx
   \<and> (\<forall>i < length ts.
         (i \<in> set idx \<longrightarrow> (\<exists>ev. upgrade_transformer d (ts ! i) = Some (ts' ! i, ev)))
         \<and> (i \<notin> set idx \<longrightarrow> ts' ! i = ts ! i))"
proof (induction idx arbitrary: ts evs)
  case Nil
  then show ?case by simp
next
  case (Cons j idx)
  from Cons.prems(3) obtain t' ev where
    u: "upgrade_transformer d (ts ! j) = Some (t', ev)"
    and r: "upgrade_each d idx (ts[j := t']) (evs @ [ev]) = Some (ts', evs')"
    by (auto split: option.splits)
  have d: "distinct idx" and nj: "j \<notin> set idx" using Cons.prems(1) by simp_all
  have jl: "j < length ts" using Cons.prems(2) by simp
  have b: "\<forall>i \<in> set idx. i < length (ts[j := t'])" using Cons.prems(2) by simp
  note IH = Cons.IH [OF d b r]
  show ?case
  proof (intro conjI allI impI)
    show "length ts' = length ts" using IH by simp
    show "length evs' = length evs + length (j # idx)" using IH by simp
  next
    fix i assume il: "i < length ts" and m: "i \<in> set (j # idx)"
    show "\<exists>ev. upgrade_transformer d (ts ! i) = Some (ts' ! i, ev)"
    proof (cases "i = j")
      case True
      then have "ts' ! i = t'" using IH nj jl by simp
      then show ?thesis using u True by simp
    next
      case False
      then have mi: "i \<in> set idx" using m by simp
      have same: "ts[j := t'] ! i = ts ! i" using False by simp
      from IH il mi have "\<exists>ev. upgrade_transformer d (ts[j := t'] ! i) = Some (ts' ! i, ev)"
        by simp
      then show ?thesis unfolding same .
    qed
  next
    fix i assume il: "i < length ts" and m: "i \<notin> set (j # idx)"
    then show "ts' ! i = ts ! i" using IH by simp
  qed
qed

lemma upgrade_each_returns:
  "\<forall>t \<in> set ts. 0 < rating_kva t \<Longrightarrow> \<forall>i \<in> set idx. i < length ts \<Longrightarrow>
   \<exists>r. upgrade_each d idx ts evs = Some r"
proof (induction idx arbitrary: ts evs)
  case Nil
  then show ?case by simp
next
  case (Cons j idx)
  have jl: "j < length ts" using Cons.prems(2) by simp
  then have "0 < rating_kva (ts ! j)" using Cons.prems(1) by simp
  from upgrade_transformer_returns [OF this, of d]
  obtain t' ev where u: "upgrade_transformer d (ts ! j) = Some (t', ev)" and p: "0 < rating_kva t'"
    by blast
  have a: "\<forall>t \<in> set (ts[j := t']). 0 < rating_kva t"
    using Cons.prems(1) p by (auto dest!: set_update_subset_insert [THEN subsetD])
  have b: "\<forall>i \<in> set idx. i < length (ts[j := t'])" using Cons.prems(2) by simp
  from Cons.IH [OF a b, of "evs @ [ev]"] u show ?case by simp
qed

lemma upgrades_loop_v13_result:
  "upgrades_loop_v13 d draw k ts = Some (ts', evs) \<Longrightarrow>
   length ts' = length ts
   \<and> (\<forall>i < length ts.
         (if transformer_type (ts ! i) = ''distribution'' \<and> 85 < capacity_utilization_pct (ts ! i)
             \<and> draw (k + i) < 2 / 100
          then \<exists>ev. upgrade_transformer d (ts ! i) = Some (ts' ! i, ev)
          else ts' ! i = ts ! i))"
proof (induction ts arbitrary: k ts' evs)
  case Nil
  then show ?case by simp
next
  case (Cons t ts)
  let ?c = "transformer_type t = ''distribution'' \<and> 85 < capacity_utilization_pct t
            \<and> draw k < 2 / 100"
  from Cons.prems obtain ts0 evs0 where
    r: "upgrades_loop_v13 d draw (Suc k) ts = Some (ts0, evs0)"
    by (auto split: if_splits option.splits)
  note IH = Cons.IH [OF r]
  show ?case
  proof (cases ?c)
    case True
    with Cons.prems r obtain t' ev where u: "upgrade_transformer d t = Some (t', ev)"
      and e: "ts' = t' # ts0"
      by (auto split: option.splits)
    show ?thesis
    proof (intro conjI allI impI)
      show "length ts' = length (t # ts)" using IH e by simp
    next
      fix i assume "i < length (t # ts)"
      then show "if transformer_type ((t # ts) ! i) = ''distribution''
                    \<and> 85 < capacity_utilization_pct ((t # ts) ! i) \<and> draw (k + i) < 2 / 100
                 then \<exists>ev. upgrade_transformer d ((t # ts) ! i) = Some (ts' ! i, ev)
                 else ts' ! i = (t # ts) ! i"
        using IH e u True by (cases i) auto
    qed
  next
    case False
    with Cons.prems r have e: "ts' = t # ts0" by (auto split: option.splits)
    show ?thesis
    proof (intro conjI allI impI)
      show "length ts' = length (t # ts)" using IH e by simp
    next
      fix i assume "i < length (t # ts)"
      then show "if transformer_type ((t # ts) ! i) = ''distribution''
                    \<and> 85 < capacity_utilization_pct ((t # ts) ! i) \<and> draw (k + i) < 2 / 100
                 then \<exists>ev. upgrade_transformer d ((t # ts) ! i) = Some (ts' ! i, ev)
                 else ts' ! i = (t # ts) ! i"
        using IH e False by (cases i) auto
    qed
  qed
qed

text \<open>
  C5. A transformer rated 500 kVA that is upgraded gets the rating 750, its utilization
  multiplied by 500/750, and exactly one entry (old rating 500, new rating 750) appended
  to its upgrade history. A transformer whose (non-zero) rating is not in the catalog is
  upgraded to 1.5 times its rating. In a monthly step of v1.2 the transformers upgraded
  are those that \<open>random.sample\<close> picked among the distribution transformers above 85%
  utilization, each upgraded once, and all others are untouched; in v1.3 a transformer is
  upgraded exactly when it is a distribution transformer above 85% whose draw is below
  0.02.
\<close>

theorem C5_transformer_upgrade:
  "(rating_kva t = 500 \<longrightarrow>
      upgrade_transformer d t
      = Some (t\<lparr>rating_kva := 750, upgrade_date := Some d,
                upgrade_history := upgrade_history t
                   @ [\<lparr>ue_date = d, old_rating = 500, new_rating = 750\<rparr>],
                capacity_utilization_pct := capacity_utilization_pct t * (500 / 750)\<rparr>,
              \<lparr>ev_date = d, ev_transformer_id = transformer_id t,
               old_rating_kva = 500, new_rating_kva = 750\<rparr>))
   \<and> (rating_kva t \<notin> fst ` set distribution_specs \<and> rating_kva t \<noteq> 0 \<longrightarrow>
        (\<exists>t' ev. upgrade_transformer d t = Some (t', ev)
                  \<and> rating_kva t' = rating_kva t * (15 / 10)))
   \<and> (valid_sample picks (length (overloaded_transformers ts))
        \<and> transformer_upgrades_v12 d picks ts = Some (ts', evs) \<longrightarrow>
        length ts' = length ts \<and> length evs = length picks
        \<and> (\<forall>i < length ts.
              (i \<in> set (map (\<lambda>p. overloaded_transformers ts ! p) picks) \<longrightarrow>
                 85 < capacity_utilization_pct (ts ! i)
                 \<and> transformer_type (ts ! i) = ''distribution''
                 \<and> (\<exists>ev. upgrade_transformer d (ts ! i) = Some (ts' ! i, ev)))
              \<and> (i \<notin> set (map (\<lambda>p. overloaded_transformers ts ! p) picks) \<longrightarrow>
                   ts' ! i = ts ! i)))
   \<and> (transformer_upgrades_v13 d draw ts = Some (ts3, evs3) \<longrightarrow>
        length ts3 = length ts
        \<and> (\<forall>i < length ts.
              (if transformer_type (ts ! i) = ''distribution''
                  \<and> 85 < capacity_utilization_pct (ts ! i) \<and> draw i < 2 / 100
               then \<exists>ev. upgrade_transformer d (ts ! i) = Some (ts3 ! i, ev)
               else ts3 ! i = ts ! i)))"
proof -
  have p1: "rating_kva t = 500 \<longrightarrow>
      upgrade_transformer d t
      = Some (t\<lparr>rating_kva := 750, upgrade_date := Some d,
                upgrade_history := upgrade_history t
                   @ [\<lparr>ue_date = d, old_rating = 500, new_rating = 750\<rparr>],
                capacity_utilization_pct := capacity_utilization_pct t * (500 / 750)\<rparr>,
              \<lparr>ev_date = d, ev_transformer_id = transformer_id t,
               old_rating_kva = 500, new_rating_kva = 750\<rparr>)"
    using upgrade_transformer_500 by blast
  have p2: "rating_kva t \<notin> fst ` set distribution_specs \<and> rating_kva t \<noteq> 0 \<longrightarrow>
        (\<exists>t' ev. upgrade_transformer d t = Some (t', ev)
                  \<and> rating_kva t' = rating_kva t * (15 / 10))"
  proof
    assume a: "rating_kva t \<notin> fst ` set distribution_specs \<and> rating_kva t \<noteq> 0"
    then have "upgrade_path distribution_specs (rating_kva t) = rating_kva t * (15 / 10)"
      using upgrade_path_no_tier by blast
    then show "\<exists>t' ev. upgrade_transformer d t = Some (t', ev)
                    \<and> rating_kva t' = rating_kva t * (15 / 10)"
      using a by (simp add: upgrade_transformer_def Let_def)
  qed
  let ?ov = "overloaded_transformers ts"
  let ?idx = "map (\<lambda>p. ?ov ! p) picks"
  have p3: "valid_sample picks (length ?ov)
        \<and> transformer_upgrades_v12 d picks ts = Some (ts', evs) \<longrightarrow>
        length ts' = length ts \<and> length evs = length picks
        \<and> (\<forall>i < length ts.
              (i \<in> set ?idx \<longrightarrow>
                 85 < capacity_utilization_pct (ts ! i)
                 \<and> transformer_type (ts ! i) = ''distribution''
                 \<and> (\<exists>ev. upgrade_transformer d (ts ! i) = Some (ts' ! i, ev)))
              \<and> (i \<notin> set ?idx \<longrightarrow> ts' ! i = ts ! i))"
  proof
    assume a: "valid_sample picks (length ?ov)
               \<and> transformer_upgrades_v12 d picks ts = Some (ts', evs)"
    then have v: "valid_sample picks (length ?ov)"
      and r: "upgrade_each d ?idx ts [] = Some (ts', evs)"
      by (simp_all add: transformer_upgrades_v12_def Let_def)
    have dis: "distinct ?idx" using picked_distinct [OF v distinct_overloaded] .
    have sub: "set ?idx \<subseteq> set ?ov" using picked_members [OF v] .
    have bnd: "\<forall>i \<in> set ?idx. i < length ts"
      using sub overloaded_transformers_members by blast
    note res = upgrade_each_result [OF dis bnd r]
    have m: "\<forall>i. i \<in> set ?idx \<longrightarrow> 85 < capacity_utilization_pct (ts ! i)
                 \<and> transformer_type (ts ! i) = ''distribution''"
      using sub overloaded_transformers_members by blast
    show "length ts' = length ts \<and> length evs = length picks
        \<and> (\<forall>i < length ts.
              (i \<in> set ?idx \<longrightarrow>
                 85 < capacity_utilization_pct (ts ! i)
                 \<and> transformer_type (ts ! i) = ''distribution''
                 \<and> (\<exists>ev. upgrade_transformer d (ts ! i) = Some (ts' ! i, ev)))
              \<and> (i \<notin> set ?idx \<longrightarrow> ts' ! i = ts ! i))"
      using res m by simp
  qed
  have p4: "transformer_upgrades_v13 d draw ts = Some (ts3, evs3) \<longrightarrow>
        length ts3 = length ts
        \<and> (\<forall>i < length ts.
              (if transformer_type (ts ! i) = ''distribution''
                  \<and> 85 < capacity_utilization_pct (ts ! i) \<and> draw i < 2 / 100
               then \<exists>ev. upgrade_transformer d (ts ! i) = Some (ts3 ! i, ev)
               else ts3 ! i = ts ! i))"
  proof
    assume "transformer_upgrades_v13 d draw ts = Some (ts3, evs3)"
    then have "upgrades_loop_v13 d draw 0 ts = Some (ts3, evs3)"
      by (simp add: transformer_upgrades_v13_def)
    from upgrades_loop_v13_result [OF this]
    show "length ts3 = length ts
          \<and> (\<forall>i < length ts.
                (if transformer_type (ts ! i) = ''distribution''
                    \<and> 85 < capacity_utilization_pct (ts ! i) \<and> draw i < 2 / 100
                 then \<exists>ev. upgrade_transformer d (ts ! i) = Some (ts3 ! i, ev)
                 else ts3 ! i = ts ! i))"
      by simp
  qed
  show ?thesis using p1 p2 p3 p4 by (intro conjI)
qed

lemmas transformer_eval = example_transformer_def overloaded_transformers_def
  transformer_upgrades_v12_def transformer_upgrades_v13_def upgrade_transformer_def
  distribution_specs_def valid_sample_def Let_def

text \<open>
  The theorem on a 500 kVA transformer at 90% (upgraded to 750 kVA at 60%), on a 300 kVA
  transformer (no tier, upgraded to 450 kVA), and on a step over a 250 kVA transformer at
  50% and the 500 kVA one, where only the second is a candidate.
\<close>

theorem C5_transformer_upgrade_witness:
  "rating_kva (example_transformer 1 500 90) = 500
   \<and> upgrade_transformer 7 (example_transformer 1 500 90)
      = Some (\<lparr>transformer_id = 1, transformer_type = ''distribution'', rating_kva = 750,
               capacity_utilization_pct = 60, upgrade_date = Some 7,
               upgrade_history = [\<lparr>ue_date = 7, old_rating = 500, new_rating = 750\<rparr>]\<rparr>,
              \<lparr>ev_date = 7, ev_transformer_id = 1, old_rating_kva = 500, new_rating_kva = 750\<rparr>)
   \<and> rating_kva (example_transformer 3 300 90) \<notin> fst ` set distribution_specs
   \<and> rating_kva (example_transformer 3 300 90) \<noteq> 0
   \<and> (\<exists>t' ev. upgrade_transformer 7 (example_transformer 3 300 90) = Some (t', ev)
               \<and> rating_kva t' = 450)
   \<and> valid_sample [0] (length (overloaded_transformers
                                 [example_transformer 2 250 50, example_transformer 1 500 90]))
   \<and> (\<exists>ts' evs. transformer_upgrades_v12 7 [0]
                   [example_transformer 2 250 50, example_transformer 1 500 90] = Some (ts', evs)
                 \<and> length evs = 1 \<and> ts' ! 0 = example_transformer 2 250 50)
   \<and> (\<exists>ts3 evs3. transformer_upgrades_v13 7 (\<lambda>i. 1 / 100)
                   [example_transformer 2 250 50, example_transformer 1 500 90] = Some (ts3, evs3)
                 \<and> ts3 ! 0 = example_transformer 2 250 50)"
proof -
  let ?a = "example_transformer 1 500 90"
  let ?b = "example_transformer 2 250 50"
  let ?c = "example_transformer 3 300 90"
  have h1: "rating_kva ?a = 500" by (simp add: example_transformer_def)
  have h2: "rating_kva ?c \<notin> fst ` set distribution_specs \<and> rating_kva ?c \<noteq> 0"
    by (simp add: example_transformer_def distribution_specs_def)
  have h3: "valid_sample [0] (length (overloaded_transformers [?b, ?a]))"
    by (simp add: transformer_eval)
  obtain ts' evs where h4: "transformer_upgrades_v12 7 [0] [?b, ?a] = Some (ts', evs)"
    by (simp add: transformer_eval)
  obtain ts3 evs3 where h5: "transformer_upgrades_v13 7 (\<lambda>i. 1 / 100) [?b, ?a] = Some (ts3, evs3)"
    by (simp add: transformer_eval)
  have ov: "map (\<lambda>p. overloaded_transformers [?b, ?a] ! p) [0] = [1]"
    by (simp add: transformer_eval)
  note t1 = C5_transformer_upgrade [of ?a 7 "[0]" "[?b, ?a]" ts' evs "\<lambda>i. 1 / 100" ts3 evs3]
  note t2 = C5_transformer_upgrade [of ?c 7 "[0]" "[?b, ?a]" ts' evs "\<lambda>i. 1 / 100" ts3 evs3]
  from t1 h1 have c1: "upgrade_transformer 7 ?a
      = Some (?a\<lparr>rating_kva := 750, upgrade_date := Some 7,
                upgrade_history := upgrade_history ?a
                   @ [\<lparr>ue_date = 7, old_rating = 500, new_rating = 750\<rparr>],
                capacity_utilization_pct := capacity_utilization_pct ?a * (500 / 750)\<rparr>,
              \<lparr>ev_date = 7, ev_transformer_id = transformer_id ?a,
               old_rating_kva = 500, new_rating_kva = 750\<rparr>)"
    by blast
  from t2 h2 have c2: "\<exists>t' ev. upgrade_transformer 7 ?c = Some (t', ev)
                  \<and> rating_kva t' = rating_kva ?c * (15 / 10)"
    by blast
  from t1 h3 h4 have c3: "length evs = length [0::nat]
        \<and> (\<forall>i < length [?b, ?a].
              (i \<notin> set (map (\<lambda>p. overloaded_transformers [?b, ?a] ! p) [0]) \<longrightarrow>
                   ts' ! i = [?b, ?a] ! i))"
    by blast
  from t1 h5 have c4: "\<forall>i < length [?b, ?a].
              (if transformer_type ([?b, ?a] ! i) = ''distribution''
                  \<and> 85 < capacity_utilization_pct ([?b, ?a] ! i) \<and> (1 / 100 :: rat) < 2 / 100
               then \<exists>ev. upgrade_transformer 7 ([?b, ?a] ! i) = Some (ts3 ! i, ev)
               else ts3 ! i = [?b, ?a] ! i)"
    by blast
  have e3: "length evs = 1 \<and> ts' ! 0 = ?b" using c3 unfolding ov by simp
  have e4: "ts3 ! 0 = ?b" using c4 [rule_format, of 0] by (simp add: example_transformer_def)
  have e1: "upgrade_transformer 7 ?a
      = Some (\<lparr>transformer_id = 1, transformer_type = ''distribution'', rating_kva = 750,
               capacity_utilization_pct = 60, upgrade_date = Some 7,
               upgrade_history = [\<lparr>ue_date = 7, old_rating = 500, new_rating = 750\<rparr>]\<rparr>,
              \<lparr>ev_date = 7, ev_transformer_id = 1, old_rating_kva = 500, new_rating_kva = 750\<rparr>)"
    using c1 by (simp add: example_transformer_def)
  have e2: "\<exists>t' ev. upgrade_transformer 7 ?c = Some (t', ev) \<and> rating_kva t' = 450"
    using c2 by (simp add: example_transformer_def)
  show ?thesis using h1 h2 h3 h4 h5 e1 e2 e3 e4 by blast
qed

section \<open>Payments\<close>

lemma py_round_idem: "py_round (py_round x n) n = py_round x n"
proof -
  have "py_round x n * 10 ^ n = of_int (round_half_even (x * 10 ^ n))"
    by (simp add: py_round_def)
  then have "round_half_even (py_round x n * 10 ^ n) = round_half_even (x * 10 ^ n)"
    by (simp add: round_half_even_of_int)
  then show ?thesis by (simp add: py_round_def)
qed

lemma example_bill_value:
  "example_bill = \<lparr>issue_date = 0, due_date = 14, units_consumed = 2,
      variable_charges = 1158 / 100, fixed_charges = 50, gst = 1108 / 100,
      electricity_duty = 17 / 100, tv_fee = 0, late_payment_surcharge = 0,
      total_amount = 7284 / 100, amount_within_due_date = 7284 / 100,
      amount_after_due_date = 7648 / 100, tariff_applied = ''A-1a''\<rparr>"
  by (simp add: example_bill_def bill_defs py_round_eval)

lemma payment_draws_valid: "valid_payment_draws (payment_draws_with (7 / 10))"
  "valid_payment_draws (payment_draws_with (1 / 2))"
  by (simp_all add: valid_payment_draws_def payment_draws_with_def unit_draw_def)

text \<open>
  C6, as stated, fails: a bill paid within the week after its due date is paid at the
  after-due-date amount. For the example bill of 72.84 the amount paid is 76.48, more than
  the bill's total, and the outstanding amount is -3.64.
\<close>

theorem C6_overpayment_counterexample:
  "valid_payment_draws (payment_draws_with (7 / 10))
   \<and> bill_amount (generate_bill_payment example_bill (payment_draws_with (7 / 10))) = 7284 / 100
   \<and> paid_amount (generate_bill_payment example_bill (payment_draws_with (7 / 10))) = 7648 / 100
   \<and> outstanding_amount (generate_bill_payment example_bill (payment_draws_with (7 / 10)))
      = - (364 / 100)
   \<and> \<not> paid_amount (generate_bill_payment example_bill (payment_draws_with (7 / 10)))
        \<le> total_amount example_bill"
proof -
  have "bill_amount (generate_bill_payment example_bill (payment_draws_with (7 / 10))) = 7284 / 100
   \<and> paid_amount (generate_bill_payment example_bill (payment_draws_with (7 / 10))) = 7648 / 100
   \<and> outstanding_amount (generate_bill_payment example_bill (payment_draws_with (7 / 10)))
      = - (364 / 100)
   \<and> \<not> paid_amount (generate_bill_payment example_bill (payment_draws_with (7 / 10)))
        \<le> total_amount example_bill"
    by (simp add: generate_bill_payment_def paid_branch_def
        example_bill_value payment_draws_with_def py_round_eval)
  then show ?thesis using payment_draws_valid(1) by simp
qed

lemma paid_branch_before_due:
  assumes v: "valid_payment_draws d" and t: "timing_draw d < 60 / 100"
    and nn: "0 \<le> amount_within_due_date b"
  shows "fst (snd (paid_branch b d)) \<le> amount_within_due_date b"
proof -
  have u: "u_partial d \<le> 1" using v by (simp add: valid_payment_draws_def unit_draw_def)
  have "uniform (5 / 10) (95 / 100) (u_partial d) \<le> 95 / 100"
    using uniform_upper [of "5 / 10" "95 / 100" "u_partial d"] u by simp
  then have f: "uniform (5 / 10) (95 / 100) (u_partial d) \<le> 1" by linarith
  have "amount_within_due_date b * uniform (5 / 10) (95 / 100) (u_partial d)
        \<le> amount_within_due_date b * 1"
    by (rule mult_left_mono [OF f nn])
  then show ?thesis using t by (simp add: paid_branch_def Let_def)
qed

text \<open>
  C6, amended. For every generated payment record: the status is Unpaid if and only if
  the amount paid is 0 and the payment date is null; the amount paid is the two-decimal
  rounding of the amount held before the record is built, and the outstanding amount is
  the two-decimal rounding of the bill total minus that unrounded amount; and the amount
  paid is at most the bill's total when the payment is made before the due date (timing
  draw below 0.60) on a bill whose total is non-negative, has two decimals and is its
  within-due-date amount. Payments after the due date pay the after-due-date amount and
  are not bounded by the total.
\<close>

theorem C6_payment_record:
  "((payment_status (generate_bill_payment b d) = Unpaid)
      = (paid_amount (generate_bill_payment b d) = 0
         \<and> payment_date (generate_bill_payment b d) = None))
   \<and> paid_amount (generate_bill_payment b d) = py_round (paid_before_rounding b d) 2
   \<and> outstanding_amount (generate_bill_payment b d)
      = py_round (total_amount b - paid_before_rounding b d) 2
   \<and> (valid_payment_draws d \<and> timing_draw d < 60 / 100 \<and> 0 \<le> total_amount b
        \<and> amount_within_due_date b = total_amount b
        \<and> py_round (total_amount b) 2 = total_amount b
      \<longrightarrow> paid_amount (generate_bill_payment b d) \<le> total_amount b)"
proof -
  have s: "payment_status (generate_bill_payment b d) = Unpaid \<longleftrightarrow> \<not> paid_draw d < 85 / 100"
    by (auto simp add: generate_bill_payment_def paid_branch_def Let_def split: prod.splits)
  have dt: "payment_date (generate_bill_payment b d) = None \<longleftrightarrow> \<not> paid_draw d < 85 / 100"
    by (auto simp add: generate_bill_payment_def Let_def split: prod.splits)
  have z: "\<not> paid_draw d < 85 / 100 \<Longrightarrow> paid_amount (generate_bill_payment b d) = 0"
    by (simp add: generate_bill_payment_def Let_def)
  have p1: "(payment_status (generate_bill_payment b d) = Unpaid)
      = (paid_amount (generate_bill_payment b d) = 0
         \<and> payment_date (generate_bill_payment b d) = None)"
    using s dt z by blast
  have p2: "paid_amount (generate_bill_payment b d) = py_round (paid_before_rounding b d) 2"
    by (auto simp add: generate_bill_payment_def paid_before_rounding_def Let_def py_round_zero
        split: prod.splits)
  have p3: "outstanding_amount (generate_bill_payment b d)
      = py_round (total_amount b - paid_before_rounding b d) 2"
    by (auto simp add: generate_bill_payment_def paid_before_rounding_def Let_def
        split: prod.splits)
  have p4: "valid_payment_draws d \<and> timing_draw d < 60 / 100 \<and> 0 \<le> total_amount b
        \<and> amount_within_due_date b = total_amount b
        \<and> py_round (total_amount b) 2 = total_amount b
      \<longrightarrow> paid_amount (generate_bill_payment b d) \<le> total_amount b"
  proof
    assume a: "valid_payment_draws d \<and> timing_draw d < 60 / 100 \<and> 0 \<le> total_amount b
        \<and> amount_within_due_date b = total_amount b
        \<and> py_round (total_amount b) 2 = total_amount b"
    show "paid_amount (generate_bill_payment b d) \<le> total_amount b"
    proof (cases "paid_draw d < 85 / 100")
      case False
      then show ?thesis using a z by simp
    next
      case True
      have "fst (snd (paid_branch b d)) \<le> total_amount b"
        using paid_branch_before_due [of d b] a by simp
      then have "paid_before_rounding b d \<le> total_amount b"
        using True by (simp add: paid_before_rounding_def)
      then have "py_round (paid_before_rounding b d) 2 \<le> py_round (total_amount b) 2"
        by (rule py_round_mono)
      then show ?thesis using p2 a by simp
    qed
  qed
  show ?thesis using p1 p2 p3 p4 by (intro conjI)
qed

text \<open>The theorem on the example bill, paid in full three days before the due date.\<close>

theorem C6_payment_record_witness:
  "valid_payment_draws (payment_draws_with (1 / 2))
   \<and> timing_draw (payment_draws_with (1 / 2)) < 60 / 100
   \<and> 0 \<le> total_amount example_bill
   \<and> amount_within_due_date example_bill = total_amount example_bill
   \<and> py_round (total_amount example_bill) 2 = total_amount example_bill
   \<and> paid_amount (generate_bill_payment example_bill (payment_draws_with (1 / 2)))
      \<le> total_amount example_bill
   \<and> payment_status (generate_bill_payment example_bill (payment_draws_with (1 / 2))) \<noteq> Unpaid"
proof -
  let ?d = "payment_draws_with (1 / 2)"
  have h: "valid_payment_draws ?d \<and> timing_draw ?d < 60 / 100 \<and> 0 \<le> total_amount example_bill
        \<and> amount_within_due_date example_bill = total_amount example_bill
        \<and> py_round (total_amount example_bill) 2 = total_amount example_bill"
    by (simp add: payment_draws_valid example_bill_value py_round_eval)
       (simp add: payment_draws_with_def)
  note t = C6_payment_record [of example_bill ?d]
  from t h have c: "paid_amount (generate_bill_payment example_bill ?d)
                    \<le> total_amount example_bill"
    by blast
  have "payment_date (generate_bill_payment example_bill ?d) \<noteq> None"
    by (simp add: generate_bill_payment_def payment_draws_with_def Let_def split: prod.splits)
  with t have u: "payment_status (generate_bill_payment example_bill ?d) \<noteq> Unpaid" by blast
  show ?thesis using h c u by blast
qed

lemma slab_loop_nonneg:
  "\<forall>(limit, rate) \<in> set slabs. 0 \<le> rate \<and> (\<forall>l. limit = Some l \<longrightarrow> 0 \<le> l) \<Longrightarrow>
   0 \<le> variable \<Longrightarrow> 0 \<le> slab_loop slabs remaining variable"
proof (induction slabs arbitrary: remaining variable)
  case Nil
  then show ?case by simp
next
  case (Cons s slabs)
  obtain limit rate where s: "s = (limit, rate)" by (cases s)
  have r: "0 \<le> rate" and l: "\<forall>l. limit = Some l \<longrightarrow> 0 \<le> l"
    and rest: "\<forall>(limit, rate) \<in> set slabs. 0 \<le> rate \<and> (\<forall>l. limit = Some l \<longrightarrow> 0 \<le> l)"
    using Cons.prems(1) s by auto
  show ?case
  proof (cases "remaining \<le> 0")
    case True
    then show ?thesis using Cons.prems(2) s by simp
  next
    case False
    let ?u = "case limit of None \<Rightarrow> remaining | Some l \<Rightarrow> min remaining l"
    have "0 \<le> ?u" using False l by (cases limit) auto
    then have "0 \<le> variable + ?u * rate" using r Cons.prems(2) by simp
    from Cons.IH [OF rest this] show ?thesis using False s by (simp add: Let_def)
  qed
qed

lemma slabs_v11_wellformed:
  "\<forall>(limit, rate) \<in> set (slabs_v11 tariff). 0 \<le> rate \<and> (\<forall>l. limit = Some l \<longrightarrow> 0 \<le> l)"
  by (simp add: slabs_v11_def)

lemma calculate_bill_amounts_consistent:
  assumes "0 \<le> connected_load"
  shows "0 \<le> total_amount (calculate_bill c tariff connected_load day tv late)
         \<and> amount_within_due_date (calculate_bill c tariff connected_load day tv late)
            = total_amount (calculate_bill c tariff connected_load day tv late)
         \<and> py_round (total_amount (calculate_bill c tariff connected_load day tv late)) 2
            = total_amount (calculate_bill c tariff connected_load day tv late)"
proof -
  let ?a = "bill_amounts_v11 c tariff connected_load tv late"
  have v: "0 \<le> a_variable ?a"
    using slab_loop_nonneg [OF slabs_v11_wellformed, of 0 tariff c]
    by (simp add: bill_amounts_v11_def Let_def)
  have f: "0 \<le> a_fixed ?a"
    using assms by (simp add: bill_amounts_v11_def fixed_charge_v11_def Let_def)
  have g: "a_gst ?a = (a_variable ?a + a_fixed ?a) * (18 / 100)"
    and d: "a_duty ?a = a_variable ?a * (15 / 1000)"
    and tvn: "0 \<le> a_tv_fee ?a"
    and l: "a_late ?a = 0 \<or> a_late ?a = (a_variable ?a + a_fixed ?a) * (5 / 100)"
    by (simp_all add: bill_amounts_v11_def Let_def)
  have "0 \<le> a_late ?a" using l v f by auto
  then have "0 \<le> a_total ?a"
    unfolding a_total_sum_v11 g d using v f tvn by simp
  then have "0 \<le> py_round (a_total ?a) 2" by (rule py_round_nonneg)
  then show ?thesis
    by (simp add: calculate_bill_def bill_of_amounts_def py_round_idem)
qed

section \<open>Meter numbers\<close>

lemma unique_meter_number_fresh:
  assumes "unique_meter_number draw k existing = Some n"
  shows "\<not> list_ex (\<lambda>m. meter_number m = n) existing"
proof (rule unique_meter_number.raw_induct
    [where P = "\<lambda>draw k existing n. \<not> list_ex (\<lambda>m. meter_number m = n) existing"])
  fix f :: "(nat \<Rightarrow> nat) \<Rightarrow> nat \<Rightarrow> meter list \<Rightarrow> nat option"
    and dr :: "nat \<Rightarrow> nat" and j :: nat and ms :: "meter list" and y :: nat
  assume IH: "\<And>k existing_meters b y. f k existing_meters b = Some y \<Longrightarrow>
                \<not> list_ex (\<lambda>m. meter_number m = y) b"
    and eq: "(if \<not> list_ex (\<lambda>m. meter_number m = dr j) ms then Some (dr j)
              else f dr (Suc j) ms) = Some y"
  show "\<not> list_ex (\<lambda>m. meter_number m = y) ms"
  proof (cases "list_ex (\<lambda>m. meter_number m = dr j) ms")
    case True
    with eq have "f dr (Suc j) ms = Some y" by simp
    then show ?thesis by (rule IH)
  next
    case False
    with eq have "y = dr j" by simp
    with False show ?thesis by simp
  qed
next
  show "unique_meter_number draw k existing = Some n" by (rule assms)
qed

lemma unique_meter_number_returns:
  "\<not> list_ex (\<lambda>m. meter_number m = draw (k + j)) existing \<Longrightarrow>
   \<exists>n. unique_meter_number draw k existing = Some n"
proof (induction j arbitrary: k)
  case 0
  then show ?case by (subst unique_meter_number.simps) simp
next
  case (Suc j)
  then have "\<exists>n. unique_meter_number draw (Suc k) existing = Some n" by simp
  then show ?case by (subst unique_meter_number.simps) simp
qed

lemma new_connection_step_distinct:
  assumes "new_connection_step meters_list tid date cid draw tariff solar dated = Some ms"
    and "distinct (map meter_number meters_list)"
  shows "distinct (map meter_number ms)"
proof -
  from assms(1) obtain n where u: "unique_meter_number draw 0 meters_list = Some n"
    and ms: "ms = meters_list @ [fresh_meter_record cid n date tariff ''Smart'' solar
                                   (if dated then Some date else None) tid]"
    by (auto simp add: new_connection_step_def generate_new_meter_def split: option.splits)
  from unique_meter_number_fresh [OF u]
  have "n \<notin> meter_number ` set meters_list" by (auto simp add: list_ex_iff)
  then show ?thesis using assms(2) ms by (simp add: fresh_meter_record_def)
qed

text \<open>
  C8. The new-connection path keeps meter numbers distinct (the two lemmas above), but
  the two other creation paths do not test the number they draw. Replacing the example
  meter with the draw 10000000000, a value \<open>random.randint\<close> can return, leaves the
  population with the deactivated old record and the active replacement under the same
  meter number; and two seeds of the initial population that drew the same number both
  enter it.
\<close>

theorem C8_meter_number_collisions:
  "meter_number_draw 10000000000
   \<and> map (\<lambda>m. (meter_number m, is_active m, meter_generation m))
        (replacement_step [example_meter] 0 100 10000000000 (1 / 2))
      = [(10000000000, False, 1), (10000000000, True, 2)]
   \<and> \<not> distinct (map meter_number (replacement_step [example_meter] 0 100 10000000000 (1 / 2)))
   \<and> map meter_number (generate_initial_meters 2 colliding_seeds) = [10000000000, 10000000000]
   \<and> \<not> distinct (map meter_number (generate_initial_meters 2 colliding_seeds))"
  by (simp add: meter_number_draw_def replacement_step_def replace_meter_def example_meter_def
      generate_initial_meters_def colliding_seeds_def fresh_meter_record_def Let_def)

section \<open>Parallel pipeline: the readings of a month window\<close>

lemma single_reading_fields:
  "p_timestamp (snd (generate_single_reading base draw md t)) = t"
  "p_status (snd (generate_single_reading base draw md t)) = ''normal''"
  "sanctioned_load_kw (fst (generate_single_reading base draw md t)) = sanctioned_load_kw md"
  by (simp_all add: generate_single_reading_def Let_def)

lemma month_loop_result:
  assumes f: "0 < f"
  shows "\<exists>md' new. month_loop base draw f e t md acc = Some (md', acc @ new)
           \<and> sanctioned_load_kw md' = sanctioned_load_kw md
           \<and> map p_timestamp new = map (\<lambda>k. t + int k * f) [0..<nat ((e - t) div f + 1)]
           \<and> (\<forall>r \<in> set new. p_status r = ''normal'')"
proof (induction "nat (e - t + 1)" arbitrary: t md acc rule: less_induct)
  case less
  show ?case
  proof (cases "t \<le> e")
    case False
    then have "(e - t) div f + 1 \<le> 0"
      using f by (simp add: div_neg_pos_less0 add1_zle_eq)
    then have n: "nat ((e - t) div f + 1) = 0" by simp
    have "month_loop base draw f e t md acc = Some (md, acc)"
      using False by (subst month_loop.simps) simp
    then show ?thesis using n by simp
  next
    case True
    let ?md1 = "fst (generate_single_reading base draw md t)"
    let ?r1 = "snd (generate_single_reading base draw md t)"
    have m: "nat (e - (t + f) + 1) < nat (e - t + 1)" using True f by simp
    from less [OF m, of ?md1 "acc @ [?r1]"]
    obtain md' new where
      r: "month_loop base draw f e (t + f) ?md1 (acc @ [?r1]) = Some (md', (acc @ [?r1]) @ new)"
      and s: "sanctioned_load_kw md' = sanctioned_load_kw ?md1"
      and ts: "map p_timestamp new
               = map (\<lambda>k. t + f + int k * f) [0..<nat ((e - (t + f)) div f + 1)]"
      and st: "\<forall>r \<in> set new. p_status r = ''normal''"
      by blast
    have step: "month_loop base draw f e t md acc = Some (md', acc @ (?r1 # new))"
      using True r by (subst month_loop.simps) simp
    have "(e - (t + f)) div f = ((e - t) + (- 1) * f) div f" by (simp add: algebra_simps)
    also have "\<dots> = - 1 + (e - t) div f"
      using f by (subst div_mult_self1) simp_all
    finally have "(e - (t + f)) div f = (e - t) div f - 1" by simp
    moreover have "0 \<le> (e - t) div f" using True f by (simp add: pos_imp_zdiv_nonneg_iff)
    ultimately have n: "nat ((e - t) div f + 1) = Suc (nat ((e - (t + f)) div f + 1))" by simp
    have "map (\<lambda>k. t + int k * f) [0..<Suc (nat ((e - (t + f)) div f + 1))]
          = t # map (\<lambda>k. t + f + int k * f) [0..<nat ((e - (t + f)) div f + 1)]"
      by (simp add: upt_rec [of 0] map_Suc_upt [symmetric] algebra_simps del: upt_Suc)
    then have "map p_timestamp (?r1 # new)
               = map (\<lambda>k. t + int k * f) [0..<nat ((e - t) div f + 1)]"
      using ts n by (simp add: single_reading_fields)
    then show ?thesis
      using step s st by (auto simp add: single_reading_fields simp del: map_eq_conv)
  qed
qed

lemma grid_point_bounds:
  assumes f: "(0::int) < f" and k: "k < nat ((e - t) div f + 1)"
  shows "t \<le> t + int k * f \<and> t + int k * f \<le> e"
proof -
  have "int k \<le> (e - t) div f" using k by linarith
  then have "int k * f \<le> ((e - t) div f) * f" using f by (simp add: mult_right_mono)
  also have "\<dots> \<le> e - t" using f by (simp add: minus_mod_eq_div_mult [symmetric])
  finally have "int k * f \<le> e - t" .
  moreover have "0 \<le> int k * f" using f by simp
  ultimately show ?thesis by linarith
qed

lemma calendar_2024:
  "strptime 2024 1 1 = 28401120" "strptime 2024 1 31 = 28444320"
  "strptime 2024 3 31 = 28530720"
  "add_one_month 28401120 = 28445760" "add_one_month 28445760 = 28487520"
  "add_one_month 28487520 = 28532160"
  by code_simp+

lemma generate_month_readings_window:
  assumes f: "0 < f"
  shows "\<exists>md' new. generate_month_readings base draw md s e f = Some (md', new)
           \<and> map p_timestamp new = map (\<lambda>k. s + int k * f) [0..<nat ((e - s) div f + 1)]
           \<and> (\<forall>r \<in> set new. s \<le> p_timestamp r \<and> p_timestamp r \<le> e
                               \<and> p_status r = ''normal'')"
proof -
  from month_loop_result [OF f, of base draw e s md "[]"]
  obtain md' new where r: "month_loop base draw f e s md [] = Some (md', new)"
    and ts: "map p_timestamp new = map (\<lambda>k. s + int k * f) [0..<nat ((e - s) div f + 1)]"
    and st: "\<forall>r \<in> set new. p_status r = ''normal''"
    by auto
  have "\<forall>r \<in> set new. s \<le> p_timestamp r \<and> p_timestamp r \<le> e"
  proof
    fix r assume "r \<in> set new"
    then have "p_timestamp r \<in> set (map p_timestamp new)" by simp
    then obtain k where "k < nat ((e - s) div f + 1)" and "p_timestamp r = s + int k * f"
      unfolding ts by auto
    then show "s \<le> p_timestamp r \<and> p_timestamp r \<le> e"
      using grid_point_bounds [OF f, of k e s] by simp
  qed
  then show ?thesis using r ts st by (auto simp add: generate_month_readings_def)
qed

text \<open>
  C10. Within one month window \<open>_generate_month_readings\<close> emits exactly one reading, with
  status \<open>normal\<close>, for each grid timestamp from the window's start to its end (the lemma
  above). The pipeline, however, ends each window at midnight of the month's last day:
  for the horizon 2024-01-01 to 2024-03-31 at 15 minutes it returns, every reading it
  emits has status \<open>normal\<close>, but the grid timestamp 2024-01-31 00:15 yields no reading.
\<close>

theorem C10_last_day_of_month_gap:
  "\<exists>md rs. process_single_meter_pipeline base draw md0
              (strptime 2024 1 1) (strptime 2024 3 31) 15 = Some (md, rs)
           \<and> on_grid (strptime 2024 1 1) (strptime 2024 3 31) 15 (strptime 2024 1 31 + 15)
           \<and> strptime 2024 1 31 + 15 \<notin> set (map p_timestamp rs)
           \<and> list_all (\<lambda>r. p_status r = ''normal'') rs"
proof -
  have f: "(0::int) < 15" by simp
  from generate_month_readings_window [OF f, of base draw md0 28401120 28444320]
  obtain md1 rs1 where
    w1: "generate_month_readings base draw md0 28401120 28444320 15 = Some (md1, rs1)"
    and b1: "\<forall>r \<in> set rs1. 28401120 \<le> p_timestamp r \<and> p_timestamp r \<le> 28444320
                             \<and> p_status r = ''normal''"
    by blast
  from generate_month_readings_window [OF f, of base draw md1 28445760 28486080]
  obtain md2 rs2 where
    w2: "generate_month_readings base draw md1 28445760 28486080 15 = Some (md2, rs2)"
    and b2: "\<forall>r \<in> set rs2. 28445760 \<le> p_timestamp r \<and> p_timestamp r \<le> 28486080
                             \<and> p_status r = ''normal''"
    by blast
  from generate_month_readings_window [OF f, of base draw md2 28487520 28530720]
  obtain md3 rs3 where
    w3: "generate_month_readings base draw md2 28487520 28530720 15 = Some (md3, rs3)"
    and b3: "\<forall>r \<in> set rs3. 28487520 \<le> p_timestamp r \<and> p_timestamp r \<le> 28530720
                             \<and> p_status r = ''normal''"
    by blast
  have l4: "pipeline_loop base draw 15 28530720 28532160 md3 (rs1 @ rs2 @ rs3)
            = Some (md3, rs1 @ rs2 @ rs3)"
    by (subst pipeline_loop.simps) simp
  have l3: "pipeline_loop base draw 15 28530720 28487520 md2 (rs1 @ rs2)
            = Some (md3, rs1 @ rs2 @ rs3)"
    by (subst pipeline_loop.simps) (simp add: calendar_2024 w3 l4)
  have l2: "pipeline_loop base draw 15 28530720 28445760 md1 rs1
            = Some (md3, rs1 @ rs2 @ rs3)"
    by (subst pipeline_loop.simps) (simp add: calendar_2024 w2 l3)
  have l1: "pipeline_loop base draw 15 28530720 28401120 md0 []
            = Some (md3, rs1 @ rs2 @ rs3)"
    by (subst pipeline_loop.simps) (simp add: calendar_2024 w1 l2)
  have g: "on_grid 28401120 28530720 15 (28444320 + 15)" by (simp add: on_grid_def)
  have n: "28444320 + 15 \<notin> set (map p_timestamp (rs1 @ rs2 @ rs3))"
    using b1 b2 b3 by auto
  have s: "list_all (\<lambda>r. p_status r = ''normal'') (rs1 @ rs2 @ rs3)"
    using b1 b2 b3 by (auto simp add: list_all_iff)
  show ?thesis
    unfolding process_single_meter_pipeline_def calendar_2024
    using l1 g n s by blast
qed

section \<open>Parallel pipeline: the register within a month window\<close>

lemma interval_consumption_cong:
  "sanctioned_load_kw md' = sanctioned_load_kw md \<Longrightarrow>
   interval_consumption base draw md' t = interval_consumption base draw md t"
  by (simp add: interval_consumption_def fallback_consumption_def split: option.splits)

lemma fallback_consumption_nonneg:
  assumes "unit_draw u" and "\<forall>l. sanctioned_load_kw md = Some l \<longrightarrow> 0 \<le> l"
  shows "0 \<le> fallback_consumption md t u"
proof -
  have u: "0 \<le> u" using assms(1) by (simp add: unit_draw_def)
  have l: "0 \<le> (case sanctioned_load_kw md of Some l \<Rightarrow> l | None \<Rightarrow> 5)"
    using assms(2) by (cases "sanctioned_load_kw md") auto
  have a: "0 \<le> uniform (7 / 10) (95 / 100) u"
    using uniform_lower [of "7 / 10" "95 / 100" u] u by simp
  have b: "0 \<le> uniform (5 / 10) (7 / 10) u"
    using uniform_lower [of "5 / 10" "7 / 10" u] u by simp
  have c: "0 \<le> uniform (2 / 10) (5 / 10) u"
    using uniform_lower [of "2 / 10" "5 / 10" u] u by simp
  show ?thesis
    unfolding fallback_consumption_def Let_def using l a b c by simp
qed

lemma single_reading_register:
  "last_reading_or_zero (fst (generate_single_reading base draw md t))
     = last_reading_or_zero md + interval_consumption base draw md t * (15 / 60)"
  "p_reading_kwh (snd (generate_single_reading base draw md t))
     = py_round (last_reading_or_zero (fst (generate_single_reading base draw md t))) 2"
  by (simp_all add: generate_single_reading_def last_reading_or_zero_def Let_def)

lemma month_loop_registers:
  assumes f: "0 < f"
    and nn: "\<And>t. 0 \<le> interval_consumption base draw md0 t"
  shows "sanctioned_load_kw md = sanctioned_load_kw md0 \<Longrightarrow>
         \<exists>md' new. month_loop base draw f e t md acc = Some (md', acc @ new)
           \<and> sanctioned_load_kw md' = sanctioned_load_kw md0
           \<and> last_reading_or_zero md \<le> last_reading_or_zero md'
           \<and> sorted (map p_reading_kwh new)
           \<and> list_all (\<lambda>r. py_round (last_reading_or_zero md) 2 \<le> p_reading_kwh r) new"
proof (induction "nat (e - t + 1)" arbitrary: t md acc rule: less_induct)
  case less
  show ?case
  proof (cases "t \<le> e")
    case False
    have "month_loop base draw f e t md acc = Some (md, acc)"
      using False by (subst month_loop.simps) simp
    then show ?thesis using less.prems by simp
  next
    case True
    let ?md1 = "fst (generate_single_reading base draw md t)"
    let ?r1 = "snd (generate_single_reading base draw md t)"
    have m: "nat (e - (t + f) + 1) < nat (e - t + 1)" using True f by simp
    have s1: "sanctioned_load_kw ?md1 = sanctioned_load_kw md0"
      using less.prems by (simp add: single_reading_fields)
    have c: "0 \<le> interval_consumption base draw md t"
      using nn [of t] interval_consumption_cong [OF less.prems] by simp
    have up: "last_reading_or_zero md \<le> last_reading_or_zero ?md1"
      using c by (simp add: single_reading_register)
    from less.hyps [OF m s1, of "acc @ [?r1]"]
    obtain md' new where
      r: "month_loop base draw f e (t + f) ?md1 (acc @ [?r1]) = Some (md', (acc @ [?r1]) @ new)"
      and s: "sanctioned_load_kw md' = sanctioned_load_kw md0"
      and le: "last_reading_or_zero ?md1 \<le> last_reading_or_zero md'"
      and so: "sorted (map p_reading_kwh new)"
      and lb: "list_all (\<lambda>r. py_round (last_reading_or_zero ?md1) 2 \<le> p_reading_kwh r) new"
      by blast
    have step: "month_loop base draw f e t md acc = Some (md', acc @ (?r1 # new))"
      using True r by (subst month_loop.simps) simp
    have k1: "p_reading_kwh ?r1 = py_round (last_reading_or_zero ?md1) 2"
      by (rule single_reading_register)
    have q: "py_round (last_reading_or_zero md) 2 \<le> py_round (last_reading_or_zero ?md1) 2"
      using up by (rule py_round_mono)
    have so': "sorted (map p_reading_kwh (?r1 # new))"
      using so lb k1 by (simp add: list_all_iff)
    have lb': "list_all (\<lambda>r. py_round (last_reading_or_zero md) 2 \<le> p_reading_kwh r) (?r1 # new)"
      using lb k1 q by (auto simp add: list_all_iff)
    have "last_reading_or_zero md \<le> last_reading_or_zero md'" using up le by linarith
    then show ?thesis using step s so' lb' by blast
  qed
qed

end
